theory Spec2Isabelle
  imports Main "HOL-Library.Monad_Syntax"
begin

section \<open>The chess rules engine: data model\<close>

text \<open>
  The engine is the module \<^verbatim>\<open>lib/chess\<close>. Its types are embedded as they are declared:
  the string unions become datatypes, the interfaces become records. Coordinates are
  JavaScript numbers that the engine only ever compares, increments and decrements, so
  they are integers here. The optional flag \<^verbatim>\<open>hasMoved\<close> of a piece is only tested
  for truthiness, so an absent flag is \<open>False\<close>; the optional flag \<^verbatim>\<open>enPassant\<close>
  of a move likewise. Every other optional field is an \<open>option\<close>.
\<close>

datatype PieceType = King | Queen | Rook | Bishop | Knight | Pawn

datatype PieceColor = White | Black

record Piece =
  ptype :: PieceType
  color :: PieceColor
  hasMoved :: bool

type_synonym Square = "Piece option"

type_synonym Board = "Square list list"

record Position =
  row :: int
  col :: int

datatype CastlingSide = Kingside | Queenside

record Move =
  mfrom :: Position
  mto :: Position
  piece :: Piece
  captured :: "Piece option"
  promotion :: "PieceType option"
  castling :: "CastlingSide option"
  enPassant :: bool
  notationText :: string

datatype Status = Waiting | Playing | Checkmate | Stalemate | Draw | Resigned

text \<open>
  The clocks are JavaScript numbers that come out of \<^verbatim>\<open>Number\<close> and a multiplication,
  so they are IEEE 754 doubles here. \<open>Finite m k\<close> is the double of value \<open>m / 2^k\<close> in
  lowest terms (\<open>k = 0\<close> or \<open>m\<close> odd): every finite double has one such form, and the
  integers are the values \<open>Finite n 0\<close>. The two zeros of the doubles are the one value
  \<open>Finite 0 0\<close>: the engine only tests a number for truthiness and multiplies it by 60,
  and both zeros are falsy.
\<close>

datatype JSNumber = NaN | PosInfinity | NegInfinity | Finite int nat

record GameState =
  board :: Board
  turn :: PieceColor
  status :: Status
  moves :: "Move list"
  whiteTime :: JSNumber
  blackTime :: JSNumber
  lastMove :: "Move option"
  enPassantTarget :: "Position option"
  winner :: "PieceColor option"
  drawOffer :: "PieceColor option"

text \<open>
  A board is an array of eight rows of eight squares. \<open>wf_board\<close> is that shape; the
  engine builds only such boards and every index it uses is within 0..7.
\<close>

definition wf_board :: "Board \<Rightarrow> bool" where
  "wf_board b = (length b = 8 \<and> list_all (\<lambda>r. length r = 8) b)"

definition pos :: "int \<Rightarrow> int \<Rightarrow> Position" where
  "pos r c = \<lparr>row = r, col = c\<rparr>"

definition samePos :: "Position \<Rightarrow> Position \<Rightarrow> bool" where
  "samePos m p = (row m = row p \<and> col m = col p)"

text \<open>\<^verbatim>\<open>board[r][c]\<close> and \<^verbatim>\<open>board[r][c] = v\<close>.\<close>

definition at :: "Board \<Rightarrow> int \<Rightarrow> int \<Rightarrow> Square" where
  "at b r c = b ! nat r ! nat c"

definition setAt :: "Board \<Rightarrow> int \<Rightarrow> int \<Rightarrow> Square \<Rightarrow> Board" where
  "setAt b r c v = b[nat r := (b ! nat r)[nat c := v]]"

definition opposite :: "PieceColor \<Rightarrow> PieceColor" where
  "opposite c = (if c = White then Black else White)"

section \<open>Board primitives\<close>

definition cloneBoard :: "Board \<Rightarrow> Board" where
  "cloneBoard b = map (\<lambda>r. map (\<lambda>p. case p of Some pc \<Rightarrow> Some pc | None \<Rightarrow> None) r) b"

definition isValidPosition :: "Position \<Rightarrow> bool" where
  "isValidPosition p = (row p \<ge> 0 \<and> row p < 8 \<and> col p \<ge> 0 \<and> col p < 8)"

definition getPiece :: "Board \<Rightarrow> Position \<Rightarrow> Square" where
  "getPiece b p = (if \<not> isValidPosition p then None else at b (row p) (col p))"

text \<open>The squares in the order of the nested loops \<^verbatim>\<open>for row 0..7, for col 0..7\<close>.\<close>

definition allSquares :: "Position list" where
  "allSquares = concat (map (\<lambda>r. map (\<lambda>c. pos r c) [0..7]) [0..7])"

definition pieceOrder :: "PieceType list" where
  "pieceOrder = [Rook, Knight, Bishop, Queen, King, Bishop, Knight, Rook]"

text \<open>
  \<^verbatim>\<open>createInitialBoard\<close>: an empty 8 by 8 array, then one loop over the columns that
  places the pawns on rows 1 and 6 and one that places the pieces of \<open>pieceOrder\<close> on
  rows 0 and 7.
\<close>

definition createInitialBoard :: Board where
  "createInitialBoard =
     (let board0 = replicate 8 (replicate 8 None);
          board1 = fold (\<lambda>c b. setAt (setAt b 1 c (Some \<lparr>ptype = Pawn, color = Black, hasMoved = False\<rparr>))
                                     6 c (Some \<lparr>ptype = Pawn, color = White, hasMoved = False\<rparr>))
                        [0..7] board0
      in fold (\<lambda>c b. setAt (setAt b 0 c (Some \<lparr>ptype = pieceOrder ! nat c, color = Black, hasMoved = False\<rparr>))
                            7 c (Some \<lparr>ptype = pieceOrder ! nat c, color = White, hasMoved = False\<rparr>))
              [0..7] board1)"

section \<open>Move generation\<close>

text \<open>
  \<^verbatim>\<open>addSlidingMoves\<close>: the while loop walks from the square next to \<open>p\<close> in direction
  \<open>(dr, dc)\<close> while the square is on the board. The engine calls it with the eight
  non-zero directions only; a zero direction (on which the source loop would not advance)
  is cut off here so that the function is total.
\<close>

function slide :: "Board \<Rightarrow> int \<Rightarrow> int \<Rightarrow> int \<Rightarrow> int \<Rightarrow> PieceColor \<Rightarrow> Position list" where
  "slide b r c dr dc clr =
     (if dr = 0 \<and> dc = 0 then []
      else if isValidPosition (pos r c) then
        (case getPiece b (pos r c) of
           None \<Rightarrow> pos r c # slide b (r + dr) (c + dc) dr dc clr
         | Some target \<Rightarrow> if color target \<noteq> clr then [pos r c] else [])
      else [])"
  by pat_completeness auto
termination
  by (relation "measure (\<lambda>(b, r, c, dr, dc, clr).
        if dr > 0 then nat (8 - r) else if dr < 0 then nat (r + 1)
        else if dc > 0 then nat (8 - c) else nat (c + 1))")
     (auto simp: isValidPosition_def pos_def)

declare slide.simps [simp del]

definition addSlidingMoves :: "Board \<Rightarrow> Position \<Rightarrow> int \<Rightarrow> int \<Rightarrow> PieceColor \<Rightarrow> Position list" where
  "addSlidingMoves b p dr dc clr = slide b (row p + dr) (col p + dc) dr dc clr"

definition pawnMoves :: "Board \<Rightarrow> Position \<Rightarrow> Piece \<Rightarrow> Position option \<Rightarrow> Position list" where
  "pawnMoves b p pc ept =
     (let direction = (if color pc = White then - 1 else 1);
          forward = pos (row p + direction) (col p);
          startRow = (if color pc = White then 6 else 1);
          doubleForward = pos (row p + 2 * direction) (col p)
      in (if isValidPosition forward \<and> getPiece b forward = None
          then forward #
               (if row p = startRow \<and> getPiece b doubleForward = None then [doubleForward] else [])
          else [])
         @ concat (map (\<lambda>dc.
             let capturePos = pos (row p + direction) (col p + dc)
             in if isValidPosition capturePos
                then (case getPiece b capturePos of
                        Some target \<Rightarrow> if color target \<noteq> color pc then [capturePos] else []
                      | None \<Rightarrow> [])
                     @ (case ept of
                          Some e \<Rightarrow> if row capturePos = row e \<and> col capturePos = col e
                                    then [capturePos] else []
                        | None \<Rightarrow> [])
                else []) [- 1, 1]))"

text \<open>A step onto a square that is on the board and empty or held by the other colour.\<close>

definition stepMoves :: "Board \<Rightarrow> Position \<Rightarrow> Piece \<Rightarrow> (int \<times> int) list \<Rightarrow> Position list" where
  "stepMoves b p pc ds =
     concat (map (\<lambda>(dr, dc).
       let newPos = pos (row p + dr) (col p + dc)
       in if isValidPosition newPos
          then (case getPiece b newPos of
                  None \<Rightarrow> [newPos]
                | Some target \<Rightarrow> if color target \<noteq> color pc then [newPos] else [])
          else []) ds)"

definition knightOffsets :: "(int \<times> int) list" where
  "knightOffsets = [(- 2, - 1), (- 2, 1), (- 1, - 2), (- 1, 2), (1, - 2), (1, 2), (2, - 1), (2, 1)]"

definition kingOffsets :: "(int \<times> int) list" where
  "kingOffsets = [(- 1, - 1), (- 1, 0), (- 1, 1), (0, - 1), (0, 1), (1, - 1), (1, 0), (1, 1)]"

definition bishopDirs :: "(int \<times> int) list" where
  "bishopDirs = [(- 1, - 1), (- 1, 1), (1, - 1), (1, 1)]"

definition rookDirs :: "(int \<times> int) list" where
  "rookDirs = [(- 1, 0), (1, 0), (0, - 1), (0, 1)]"

definition slidingMoves :: "Board \<Rightarrow> Position \<Rightarrow> Piece \<Rightarrow> (int \<times> int) list \<Rightarrow> Position list" where
  "slidingMoves b p pc ds = concat (map (\<lambda>(dr, dc). addSlidingMoves b p dr dc (color pc)) ds)"

text \<open>
  Loops with an early exit over calls that may not return. \<open>None\<close> stands for a call
  that does not return; \<open>anyM\<close> is \<^verbatim>\<open>some\<close> (and a chain of \<^verbatim>\<open>||\<close>), evaluated
  left to right and stopping at the first hit; \<open>filterM\<close> keeps the elements that pass.
\<close>

fun anyM :: "('a \<Rightarrow> bool option) \<Rightarrow> 'a list \<Rightarrow> bool option" where
  "anyM f [] = Some False"
| "anyM f (x # xs) = do { r \<leftarrow> f x; if r then Some True else anyM f xs }"

fun filterM :: "('a \<Rightarrow> bool option) \<Rightarrow> 'a list \<Rightarrow> 'a list option" where
  "filterM f [] = Some []"
| "filterM f (x # xs) = do { keep \<leftarrow> f x; rest \<leftarrow> filterM f xs; Some (if keep then x # rest else rest) }"

text \<open>
  The castling branch of the king's case. \<open>attacked sq\<close> is the call
  \<^verbatim>\<open>isSquareAttacked(board, sq, piece.color)\<close>; the three calls of each side are joined by
  \<^verbatim>\<open>&&\<close> over their negations, so a later square is tested only when the earlier ones
  are not attacked. The king's column is not read: the squares are columns 4, 5, 6 and
  4, 3, 2 of the king's row.
\<close>

definition castlingMoves :: "(Position \<Rightarrow> bool option) \<Rightarrow> Board \<Rightarrow> Position \<Rightarrow> Piece \<Rightarrow> Position list option" where
  "castlingMoves attacked b p pc =
     (if \<not> hasMoved pc then do {
        ks \<leftarrow> (case getPiece b (pos (row p) 7) of
                 Some kingsideRook \<Rightarrow>
                   if ptype kingsideRook = Rook \<and> \<not> hasMoved kingsideRook then
                     if getPiece b (pos (row p) 5) = None \<and> getPiece b (pos (row p) 6) = None then do {
                       a \<leftarrow> anyM attacked [pos (row p) 4, pos (row p) 5, pos (row p) 6];
                       Some (if \<not> a then [pos (row p) 6] else [])
                     } else Some []
                   else Some []
               | None \<Rightarrow> Some []);
        qs \<leftarrow> (case getPiece b (pos (row p) 0) of
                 Some queensideRook \<Rightarrow>
                   if ptype queensideRook = Rook \<and> \<not> hasMoved queensideRook then
                     if getPiece b (pos (row p) 1) = None \<and> getPiece b (pos (row p) 2) = None
                        \<and> getPiece b (pos (row p) 3) = None then do {
                       a \<leftarrow> anyM attacked [pos (row p) 4, pos (row p) 3, pos (row p) 2];
                       Some (if \<not> a then [pos (row p) 2] else [])
                     } else Some []
                   else Some []
               | None \<Rightarrow> Some []);
        Some (ks @ qs)
      } else Some [])"

text \<open>
  \<^verbatim>\<open>getRawMoves\<close> and \<^verbatim>\<open>isSquareAttacked\<close> call each other: the king's castling branch
  asks whether squares are attacked, and the attack test generates the raw moves of every
  piece of the other colour, kings included. Nothing in the source bounds that recursion,
  so the embedding carries a depth budget \<open>n\<close>: the number of nested calls of
  \<^verbatim>\<open>isSquareAttacked\<close> still allowed. A result \<open>Some v\<close> is the value the source returns;
  \<open>None\<close> says that the budget is used up before the call returns. A call of the source
  returns exactly when some budget gives \<open>Some\<close>.
\<close>

fun getRawMoves :: "nat \<Rightarrow> Board \<Rightarrow> Position \<Rightarrow> Position option \<Rightarrow> Position list option"
  and isSquareAttacked :: "nat \<Rightarrow> Board \<Rightarrow> Position \<Rightarrow> PieceColor \<Rightarrow> bool option" where
  "getRawMoves n b p ept =
     (case getPiece b p of
        None \<Rightarrow> Some []
      | Some pc \<Rightarrow>
          (case ptype pc of
             Pawn \<Rightarrow> Some (pawnMoves b p pc ept)
           | Knight \<Rightarrow> Some (stepMoves b p pc knightOffsets)
           | Bishop \<Rightarrow> Some (slidingMoves b p pc bishopDirs)
           | Rook \<Rightarrow> Some (slidingMoves b p pc rookDirs)
           | Queen \<Rightarrow> Some (slidingMoves b p pc (bishopDirs @ rookDirs))
           | King \<Rightarrow> do {
               cs \<leftarrow> castlingMoves (\<lambda>sq. isSquareAttacked n b sq (color pc)) b p pc;
               Some (stepMoves b p pc kingOffsets @ cs)
             }))"
| "isSquareAttacked 0 b p defenderColor = None"
| "isSquareAttacked (Suc n) b p defenderColor =
     anyM (\<lambda>sq. case at b (row sq) (col sq) of
                  None \<Rightarrow> Some False
                | Some pc \<Rightarrow>
                    if color pc = opposite defenderColor then do {
                      ms \<leftarrow> getRawMoves n b sq None;
                      Some (list_ex (\<lambda>m. samePos m p) ms)
                    } else Some False)
          allSquares"

declare getRawMoves.simps [simp del] isSquareAttacked.simps [simp del]

section \<open>Check and legal moves\<close>

definition findKing :: "Board \<Rightarrow> PieceColor \<Rightarrow> Position option" where
  "findKing b c =
     find (\<lambda>sq. case at b (row sq) (col sq) of
                  Some pc \<Rightarrow> ptype pc = King \<and> color pc = c
                | None \<Rightarrow> False) allSquares"

definition isInCheck :: "nat \<Rightarrow> Board \<Rightarrow> PieceColor \<Rightarrow> bool option" where
  "isInCheck n b c =
     (case findKing b c of
        None \<Rightarrow> Some False
      | Some kingPos \<Rightarrow> isSquareAttacked n b kingPos c)"

text \<open>The scratch board of \<^verbatim>\<open>getLegalMoves\<close> after the raw move \<open>m\<close> has been played on it.\<close>

definition testBoard :: "Board \<Rightarrow> Position \<Rightarrow> Piece \<Rightarrow> Position option \<Rightarrow> Position \<Rightarrow> Board" where
  "testBoard b p pc ept m =
     (let t0 = cloneBoard b;
          t1 = setAt t0 (row m) (col m) (Some (pc\<lparr>hasMoved := True\<rparr>));
          t2 = setAt t1 (row p) (col p) None
      in if ptype pc = Pawn \<and> (case ept of Some e \<Rightarrow> row m = row e \<and> col m = col e | None \<Rightarrow> False)
         then setAt t2 (if color pc = White then row m + 1 else row m - 1) (col m) None
         else t2)"

definition getLegalMoves :: "nat \<Rightarrow> Board \<Rightarrow> Position \<Rightarrow> Position option \<Rightarrow> Position list option" where
  "getLegalMoves n b p ept =
     (case getPiece b p of
        None \<Rightarrow> Some []
      | Some pc \<Rightarrow> do {
          rawMoves \<leftarrow> getRawMoves n b p ept;
          filterM (\<lambda>m. do { chk \<leftarrow> isInCheck n (testBoard b p pc ept m) (color pc); Some (\<not> chk) }) rawMoves
        })"

section \<open>Notation\<close>

text \<open>
  \<^verbatim>\<open>generateNotation\<close>. \<open>files\<close> is indexed by the destination column and the rank is the
  number \<open>8 - row\<close> appended to the string; both are read for squares on the board only,
  where the rank is a single digit.
\<close>

definition pieceLetters :: "PieceType \<Rightarrow> string" where
  "pieceLetters t = (case t of King \<Rightarrow> ''K'' | Queen \<Rightarrow> ''Q'' | Rook \<Rightarrow> ''R''
                      | Bishop \<Rightarrow> ''B'' | Knight \<Rightarrow> ''N'' | Pawn \<Rightarrow> [])"

definition files :: string where
  "files = ''abcdefgh''"

definition digits :: string where
  "digits = ''0123456789''"

definition generateNotation :: "Board \<Rightarrow> Move \<Rightarrow> string" where
  "generateNotation b move =
     (let toFile = [files ! nat (col (mto move))];
          toRank = [digits ! nat (8 - row (mto move))]
      in if castling move = Some Kingside then ''O-O''
         else if castling move = Some Queenside then ''O-O-O''
         else (if ptype (piece move) \<noteq> Pawn then pieceLetters (ptype (piece move)) else [])
              @ (if captured move \<noteq> None \<or> enPassant move
                 then (if ptype (piece move) = Pawn then [files ! nat (col (mfrom move))] else []) @ ''x''
                 else [])
              @ toFile @ toRank
              @ (case promotion move of Some t \<Rightarrow> ''='' @ pieceLetters t | None \<Rightarrow> []))"

section \<open>Move application\<close>

text \<open>The tests of \<^verbatim>\<open>makeMove\<close> for the special moves, named.\<close>

definition isCastling :: "Piece \<Rightarrow> Position \<Rightarrow> Position \<Rightarrow> bool" where
  "isCastling pc fromP toP = (ptype pc = King \<and> \<bar>col toP - col fromP\<bar> = 2)"

definition isEnPassant :: "Position option \<Rightarrow> Piece \<Rightarrow> Position \<Rightarrow> bool" where
  "isEnPassant ept pc toP =
     (ptype pc = Pawn \<and> (case ept of Some e \<Rightarrow> row toP = row e \<and> col toP = col e | None \<Rightarrow> False))"

definition capturedPawnRow :: "Piece \<Rightarrow> Position \<Rightarrow> int" where
  "capturedPawnRow pc toP = (if color pc = White then row toP + 1 else row toP - 1)"

definition isPromotion :: "Piece \<Rightarrow> Position \<Rightarrow> bool" where
  "isPromotion pc toP = (ptype pc = Pawn \<and> (row toP = 0 \<or> row toP = 7))"

text \<open>\<^verbatim>\<open>promotion || 'queen'\<close>: every piece type is a non-empty string, hence truthy.\<close>

definition promotedTo :: "PieceType option \<Rightarrow> PieceType" where
  "promotedTo promo = (case promo of Some t \<Rightarrow> t | None \<Rightarrow> Queen)"

text \<open>
  \<open>castledBoard\<close> is \<^verbatim>\<open>newBoard\<close> after the castling block: the rook is copied with its
  flag set and its old square is cleared. The source asserts with \<^verbatim>\<open>!\<close> that the rook
  square is not empty, which holds for every move that passed the legality test.
\<close>

definition castledBoard :: "Board \<Rightarrow> Piece \<Rightarrow> Position \<Rightarrow> Position \<Rightarrow> Board" where
  "castledBoard b pc fromP toP =
     (if isCastling pc fromP toP then
        let isKingside = col toP > col fromP;
            rookFromCol = (if isKingside then 7 else 0);
            rookToCol = (if isKingside then 5 else 3);
            b1 = setAt b (row fromP) rookToCol
                   (map_option (\<lambda>rk. rk\<lparr>hasMoved := True\<rparr>) (at b (row fromP) rookFromCol))
        in setAt b1 (row fromP) rookFromCol None
      else b)"

text \<open>\<open>movedBoard\<close> is \<^verbatim>\<open>newBoard\<close> when the notation is generated, after all its writes.\<close>

definition movedBoard :: "GameState \<Rightarrow> Piece \<Rightarrow> Position \<Rightarrow> Position \<Rightarrow> PieceType option \<Rightarrow> Board" where
  "movedBoard state pc fromP toP promo =
     (let b1 = castledBoard (cloneBoard (board state)) pc fromP toP;
          b2 = (if isEnPassant (enPassantTarget state) pc toP
                then setAt b1 (capturedPawnRow pc toP) (col toP) None else b1);
          b3 = (if isPromotion pc toP
                then setAt b2 (row toP) (col toP)
                       (Some \<lparr>ptype = promotedTo promo, color = color pc, hasMoved = True\<rparr>)
                else setAt b2 (row toP) (col toP) (Some (pc\<lparr>hasMoved := True\<rparr>)))
      in setAt b3 (row fromP) (col fromP) None)"

text \<open>\<open>moveRecord\<close> is the record \<^verbatim>\<open>move\<close> as it is appended to the history.\<close>

definition moveRecord :: "GameState \<Rightarrow> Piece \<Rightarrow> Position \<Rightarrow> Position \<Rightarrow> PieceType option \<Rightarrow> Move" where
  "moveRecord state pc fromP toP promo =
     (let b0 = cloneBoard (board state);
          b1 = castledBoard b0 pc fromP toP;
          move = \<lparr>mfrom = fromP, mto = toP, piece = pc,
                  captured = (if isEnPassant (enPassantTarget state) pc toP
                              then at b1 (capturedPawnRow pc toP) (col toP)
                              else getPiece b0 toP),
                  promotion = (if isPromotion pc toP then Some (promotedTo promo) else None),
                  castling = (if isCastling pc fromP toP
                              then Some (if col toP > col fromP then Kingside else Queenside)
                              else None),
                  enPassant = isEnPassant (enPassantTarget state) pc toP,
                  notationText = []\<rparr>
      in move\<lparr>notationText := generateNotation (board state) move\<rparr>)"

definition newEnPassantTarget :: "Piece \<Rightarrow> Position \<Rightarrow> Position \<Rightarrow> Position option" where
  "newEnPassantTarget pc fromP toP =
     (if ptype pc = Pawn \<and> \<bar>row toP - row fromP\<bar> = 2
      then Some (pos ((row fromP + row toP) div 2) (col fromP))
      else None)"

text \<open>The loop labelled \<^verbatim>\<open>outer\<close>: does any piece of colour \<open>c\<close> have a legal move?\<close>

definition hasLegalMoves :: "nat \<Rightarrow> Board \<Rightarrow> PieceColor \<Rightarrow> Position option \<Rightarrow> bool option" where
  "hasLegalMoves n b c ept =
     anyM (\<lambda>sq. case at b (row sq) (col sq) of
                  None \<Rightarrow> Some False
                | Some p \<Rightarrow>
                    if color p = c then do {
                      ms \<leftarrow> getLegalMoves n b sq ept;
                      Some (length ms > 0)
                    } else Some False)
          allSquares"

text \<open>
  \<^verbatim>\<open>makeMove\<close> in three parts, in the order of the source. The outer \<open>option\<close> of
  its result is the depth budget (\<open>None\<close>: no result within it), the inner one is the
  result of the source: \<open>None\<close> is \<^verbatim>\<open>null\<close>, the rejection.

  \<open>terminalCheck\<close> is the block that computes \<^verbatim>\<open>status\<close> and \<^verbatim>\<open>winner\<close> from the
  loop \<open>hasLegalMoves\<close>; \<open>status0\<close> is the status carried over (\<^verbatim>\<open>waiting\<close> already
  turned into \<^verbatim>\<open>playing\<close>) and \<open>mover\<close> is \<^verbatim>\<open>state.turn\<close>.
\<close>

definition terminalCheck :: "nat \<Rightarrow> Board \<Rightarrow> PieceColor \<Rightarrow> Position option \<Rightarrow> Status \<Rightarrow> PieceColor
    \<Rightarrow> (Status \<times> PieceColor option) option" where
  "terminalCheck n newBoard nextTurn newEpt status0 mover = do {
     hasLegal \<leftarrow> hasLegalMoves n newBoard nextTurn newEpt;
     if \<not> hasLegal then do {
       chk \<leftarrow> isInCheck n newBoard nextTurn;
       Some (if chk then (Checkmate, Some mover) else (Stalemate, None))
     } else Some (status0, None)
   }"

text \<open>\<open>applyLegal\<close> is the part of \<^verbatim>\<open>makeMove\<close> after the two early returns.\<close>

definition applyLegal :: "nat \<Rightarrow> GameState \<Rightarrow> Piece \<Rightarrow> Position \<Rightarrow> Position \<Rightarrow> PieceType option \<Rightarrow> GameState option" where
  "applyLegal n state pc fromP toP promo =
     (let newBoard = movedBoard state pc fromP toP promo;
          move = moveRecord state pc fromP toP promo;
          newEpt = newEnPassantTarget pc fromP toP;
          nextTurn = opposite (turn state);
          status0 = (if status state = Waiting then Playing else status state)
      in do {
        (status1, winner1) \<leftarrow> terminalCheck n newBoard nextTurn newEpt status0 (turn state);
        Some (state\<lparr>board := newBoard, turn := nextTurn, status := status1,
                     moves := moves state @ [move], lastMove := Some move,
                     enPassantTarget := newEpt, winner := winner1\<rparr>)
      })"

definition makeMove :: "nat \<Rightarrow> GameState \<Rightarrow> Position \<Rightarrow> Position \<Rightarrow> PieceType option \<Rightarrow> GameState option option" where
  "makeMove n state fromP toP promo =
     (case getPiece (board state) fromP of
        None \<Rightarrow> Some None
      | Some pc \<Rightarrow>
          if color pc \<noteq> turn state then Some None
          else do {
            legalMoves \<leftarrow> getLegalMoves n (board state) fromP (enPassantTarget state);
            if \<not> list_ex (\<lambda>m. samePos m toP) legalMoves then Some None
            else map_option Some (applyLegal n state pc fromP toP promo)
          })"

section \<open>Splitting the time control\<close>

text \<open>
  \<^verbatim>\<open>timeControl.split('+')\<close>: the fields between the separators; a string without a
  separator is one field, and the empty string is one empty field.
\<close>

fun splitOn :: "char \<Rightarrow> string \<Rightarrow> string list" where
  "splitOn sep [] = [[]]"
| "splitOn sep (c # cs) =
     (if c = sep then [] # splitOn sep cs
      else (case splitOn sep cs of
              fld # flds \<Rightarrow> (c # fld) # flds
            | [] \<Rightarrow> [[c]]))"

section \<open>Numbers\<close>

text \<open>
  Rounding to the nearest double, ties to the even significand. \<open>bitLength n\<close> is the
  number of binary digits of \<open>n\<close>; \<open>floorLog2 p q\<close> is the integer part of the binary
  logarithm of \<open>p / q\<close>, for \<open>p\<close> and \<open>q\<close> above zero. The numbers are of type \<open>int\<close>
  throughout, also where they cannot be negative.
\<close>

function bitLength :: "int \<Rightarrow> nat" where
  "bitLength n = (if n \<le> 0 then 0 else Suc (bitLength (n div 2)))"
  by pat_completeness auto
termination
  by (relation "measure nat") auto

declare bitLength.simps [simp del]

definition floorLog2 :: "int \<Rightarrow> int \<Rightarrow> int" where
  "floorLog2 p q =
     (let k = int (bitLength p) - int (bitLength q)
      in if (if 0 \<le> k then q * 2 ^ nat k \<le> p else q \<le> p * 2 ^ nat (- k)) then k else k - 1)"

text \<open>The integer nearest to \<open>N / D\<close>, the even one of two that are equally near.\<close>

definition roundHalfEven :: "int \<Rightarrow> int \<Rightarrow> int" where
  "roundHalfEven N D =
     (let f = N div D; r = N mod D
      in if 2 * r < D then f else if D < 2 * r then f + 1 else if even f then f else f + 1)"

text \<open>The value \<open>m / 2^k\<close> in lowest terms.\<close>

fun lowestTerms :: "int \<Rightarrow> nat \<Rightarrow> JSNumber" where
  "lowestTerms m 0 = Finite m 0"
| "lowestTerms m (Suc k) = (if even m then lowestTerms (m div 2) k else Finite m (Suc k))"

text \<open>
  The double nearest to \<open>p / q\<close>, negated when \<open>neg\<close>, for \<open>q\<close> above zero. The significand
  has 53 binary digits, the exponent of its last digit is \<open>e\<close> and is not below \<open>- 1074\<close>
  (the subnormal numbers); a result that reaches \<open>2^1024\<close> is infinite.
\<close>

definition roundToDouble :: "bool \<Rightarrow> int \<Rightarrow> int \<Rightarrow> JSNumber" where
  "roundToDouble neg p q =
     (if p \<le> 0 then Finite 0 0
      else
        let e = max (floorLog2 p q - 52) (- 1074);
            m = (if 0 \<le> e then roundHalfEven p (q * 2 ^ nat e)
                 else roundHalfEven (p * 2 ^ nat (- e)) q)
        in if 0 \<le> e then
             (if 2 ^ 1024 \<le> m * 2 ^ nat e then (if neg then NegInfinity else PosInfinity)
              else Finite ((if neg then - 1 else 1) * (m * 2 ^ nat e)) 0)
           else lowestTerms ((if neg then - 1 else 1) * m) (nat (- e)))"

text \<open>
  \<^verbatim>\<open>x * y\<close> on numbers: the exact product of two finite numbers, rounded; the rules of
  the doubles for \<^verbatim>\<open>NaN\<close> and the infinite numbers.
\<close>

definition signOf :: "JSNumber \<Rightarrow> int" where
  "signOf x = (case x of NaN \<Rightarrow> 0 | PosInfinity \<Rightarrow> 1 | NegInfinity \<Rightarrow> - 1 | Finite m k \<Rightarrow> sgn m)"

definition jsTimes :: "JSNumber \<Rightarrow> JSNumber \<Rightarrow> JSNumber" where
  "jsTimes x y =
     (if x = NaN \<or> y = NaN then NaN
      else case (x, y) of
             (Finite a j, Finite b k) \<Rightarrow> roundToDouble (a * b < 0) \<bar>a * b\<bar> (2 ^ (j + k))
           | _ \<Rightarrow> if signOf x * signOf y = 0 then NaN
                  else if 0 < signOf x * signOf y then PosInfinity else NegInfinity)"

text \<open>The falsy numbers: \<^verbatim>\<open>NaN\<close> and zero.\<close>

definition falsy :: "JSNumber \<Rightarrow> bool" where
  "falsy x = (x = NaN \<or> x = Finite 0 0)"

text \<open>
  \<^verbatim>\<open>Number(s)\<close> on a string, the conversion \<^verbatim>\<open>StringToNumber\<close> of the language: white
  space and line terminators are trimmed at both ends; the empty string is 0; a literal
  \<^verbatim>\<open>0x\<close>, \<^verbatim>\<open>0o\<close> or \<^verbatim>\<open>0b\<close> with digits of its base, without a sign; or an optional
  sign and \<^verbatim>\<open>Infinity\<close> or decimal digits with an optional point and an optional
  exponent, at least one digit before or after the point; every other string is \<^verbatim>\<open>NaN\<close>.
  The value is rounded to the nearest double. Strings are over the characters with codes
  0 to 255; the white space among them is tab, line feed, vertical tab, form feed,
  carriage return, space and no-break space.
\<close>

definition isWhiteSpace :: "char \<Rightarrow> bool" where
  "isWhiteSpace c = ((of_char c :: int) \<in> set [9, 10, 11, 12, 13, 32, 160])"

definition trim :: "string \<Rightarrow> string" where
  "trim s = rev (dropWhile isWhiteSpace (rev (dropWhile isWhiteSpace s)))"

definition isDigit :: "char \<Rightarrow> bool" where
  "isDigit c = (c \<in> set digits)"

definition digitValue :: "char \<Rightarrow> int" where
  "digitValue c = of_char c - 48"

definition decimalValue :: "string \<Rightarrow> int" where
  "decimalValue s = foldl (\<lambda>a c. 10 * a + digitValue c) 0 s"

text \<open>The value of a digit of base 16 or less: \<^verbatim>\<open>0\<close> to \<^verbatim>\<open>9\<close>, \<^verbatim>\<open>a\<close> to \<^verbatim>\<open>f\<close>, \<^verbatim>\<open>A\<close> to \<^verbatim>\<open>F\<close>.\<close>

definition hexDigitValue :: "char \<Rightarrow> int option" where
  "hexDigitValue c =
     (let n = (of_char c :: int)
      in if 48 \<le> n \<and> n \<le> 57 then Some (n - 48)
         else if 97 \<le> n \<and> n \<le> 102 then Some (n - 87)
         else if 65 \<le> n \<and> n \<le> 70 then Some (n - 55)
         else None)"

definition digitsIn :: "int \<Rightarrow> string \<Rightarrow> int option" where
  "digitsIn base ds =
     (if ds \<noteq> [] \<and> list_all (\<lambda>c. case hexDigitValue c of Some d \<Rightarrow> d < base | None \<Rightarrow> False) ds
      then Some (foldl (\<lambda>a c. base * a + the (hexDigitValue c)) 0 ds)
      else None)"

definition nonDecimalLiteral :: "string \<Rightarrow> int option" where
  "nonDecimalLiteral t =
     (case t of
        c0 # c1 # ds \<Rightarrow>
          if c0 = CHR ''0'' then
            (if c1 = CHR ''x'' \<or> c1 = CHR ''X'' then digitsIn 16 ds
             else if c1 = CHR ''o'' \<or> c1 = CHR ''O'' then digitsIn 8 ds
             else if c1 = CHR ''b'' \<or> c1 = CHR ''B'' then digitsIn 2 ds
             else None)
          else None
      | _ \<Rightarrow> None)"

definition decimalDigits :: "string \<Rightarrow> int option" where
  "decimalDigits ds = (if ds \<noteq> [] \<and> list_all isDigit ds then Some (decimalValue ds) else None)"

text \<open>The exponent part that is left after the digits: absent (0), or \<^verbatim>\<open>e\<close> and a signed integer.\<close>

definition exponentPart :: "string \<Rightarrow> int option" where
  "exponentPart r =
     (case r of
        [] \<Rightarrow> Some 0
      | c # r1 \<Rightarrow>
          if c = CHR ''e'' \<or> c = CHR ''E'' then
            (case r1 of
               [] \<Rightarrow> None
             | s # ds \<Rightarrow>
                 if s = CHR ''+'' then decimalDigits ds
                 else if s = CHR ''-'' then map_option uminus (decimalDigits ds)
                 else decimalDigits r1)
          else None)"

definition unsignedDecimal :: "bool \<Rightarrow> string \<Rightarrow> JSNumber" where
  "unsignedDecimal neg u =
     (if u = ''Infinity'' then (if neg then NegInfinity else PosInfinity)
      else
        let ip = takeWhile isDigit u;
            r1 = dropWhile isDigit u;
            hasPoint = (case r1 of c # r \<Rightarrow> c = CHR ''.'' | [] \<Rightarrow> False);
            r2 = (if hasPoint then tl r1 else r1);
            fp = (if hasPoint then takeWhile isDigit r2 else []);
            r3 = (if hasPoint then dropWhile isDigit r2 else r2)
        in if ip = [] \<and> fp = [] then NaN
           else case exponentPart r3 of
                  None \<Rightarrow> NaN
                | Some ex \<Rightarrow>
                    let x = ex - int (length fp)
                    in if 0 \<le> x then roundToDouble neg (decimalValue (ip @ fp) * 10 ^ nat x) 1
                       else roundToDouble neg (decimalValue (ip @ fp)) (10 ^ nat (- x)))"

definition Number :: "string \<Rightarrow> JSNumber" where
  "Number s =
     (let t = trim s
      in if t = [] then Finite 0 0
         else case nonDecimalLiteral t of
                Some v \<Rightarrow> roundToDouble False v 1
              | None \<Rightarrow>
                  (case t of
                     c # u \<Rightarrow>
                       if c = CHR ''+'' then unsignedDecimal False u
                       else if c = CHR ''-'' then unsignedDecimal True u
                       else unsignedDecimal False t
                   | [] \<Rightarrow> NaN))"

section \<open>The initial state\<close>

text \<open>
  \<^verbatim>\<open>createInitialGameState\<close>. \<^verbatim>\<open>map(Number)\<close> converts every field, and the pattern
  \<^verbatim>\<open>[minutes]\<close> takes the first. \<^verbatim>\<open>minutes || 10\<close> is 10 when \<open>minutes\<close> is falsy. The
  default value \<^verbatim>\<open>'10+0'\<close> of the parameter stands for an argument that is left out.
\<close>

definition createInitialGameState :: "string \<Rightarrow> GameState" where
  "createInitialGameState timeControl =
     (let minutes = hd (map Number (splitOn (CHR ''+'') timeControl));
          timeInSeconds = jsTimes (if falsy minutes then Finite 10 0 else minutes) (Finite 60 0)
      in \<lparr>board = createInitialBoard, turn = White, status = Waiting, moves = [],
          whiteTime = timeInSeconds, blackTime = timeInSeconds,
          lastMove = None, enPassantTarget = None, winner = None, drawOffer = None\<rparr>)"

section \<open>Positions used as examples\<close>

definition emptyRow :: "Square list" where
  "emptyRow = replicate 8 None"

definition movedKing :: "PieceColor \<Rightarrow> Square" where
  "movedKing c = Some \<lparr>ptype = King, color = c, hasMoved = True\<rparr>"

text \<open>The two kings on e8 and e1, both moved before, and nothing else.\<close>

definition kingsOnly :: Board where
  "kingsOnly =
     [[None, None, None, None, movedKing Black, None, None, None],
      emptyRow, emptyRow, emptyRow, emptyRow, emptyRow, emptyRow,
      [None, None, None, None, movedKing White, None, None, None]]"

definition kingsOnlyState :: "Status \<Rightarrow> PieceColor option \<Rightarrow> GameState" where
  "kingsOnlyState st offer =
     \<lparr>board = kingsOnly, turn = White, status = st, moves = [],
      whiteTime = Finite 600 0, blackTime = Finite 600 0, lastMove = None, enPassantTarget = None,
      winner = None, drawOffer = offer\<rparr>"

text \<open>The state after the white king has stepped from e1 to d1 in \<open>kingsOnlyState st offer\<close>.\<close>

definition kingsOnlyAfterKd1 :: "Status \<Rightarrow> PieceColor option \<Rightarrow> GameState" where
  "kingsOnlyAfterKd1 st offer =
     (let mv = \<lparr>mfrom = pos 7 4, mto = pos 7 3,
                piece = \<lparr>ptype = King, color = White, hasMoved = True\<rparr>,
                captured = None, promotion = None, castling = None, enPassant = False,
                notationText = ''Kd1''\<rparr>
      in \<lparr>board =
            [[None, None, None, None, movedKing Black, None, None, None],
             emptyRow, emptyRow, emptyRow, emptyRow, emptyRow, emptyRow,
             [None, None, None, movedKing White, None, None, None, None]],
          turn = Black, status = st, moves = [mv],
          whiteTime = Finite 600 0, blackTime = Finite 600 0, lastMove = Some mv, enPassantTarget = None,
          winner = None, drawOffer = offer\<rparr>)"

text \<open>A board with the white king alone.\<close>

definition whiteKingAlone :: Board where
  "whiteKingAlone =
     [emptyRow, emptyRow, emptyRow, emptyRow, emptyRow, emptyRow, emptyRow,
      [None, None, None, None, movedKing White, None, None, None]]"

section \<open>Notions of the specification\<close>

text \<open>
  The words of the claims, as predicates of their own. A two-square pawn advance is a
  pawn that goes two rows in its own direction (up the board for white, down for black)
  and stays in its column; the square it passes over is the one in between.
\<close>

definition forwardDirection :: "PieceColor \<Rightarrow> int" where
  "forwardDirection c = (if c = White then - 1 else 1)"

definition twoSquareAdvance :: "Piece \<Rightarrow> Position \<Rightarrow> Position \<Rightarrow> bool" where
  "twoSquareAdvance pc fromP toP =
     (ptype pc = Pawn \<and> col toP = col fromP
      \<and> row toP = row fromP + 2 * forwardDirection (color pc))"

definition passedSquare :: "Piece \<Rightarrow> Position \<Rightarrow> Position" where
  "passedSquare pc fromP = pos (row fromP + forwardDirection (color pc)) (col fromP)"

text \<open>The farthest rank of a colour: row 0 for white, row 7 for black.\<close>

definition farthestRank :: "PieceColor \<Rightarrow> int" where
  "farthestRank c = (if c = White then 0 else 7)"

text \<open>
  The side \<open>c\<close> has no legal destination for any of its pieces: every call of
  \<^verbatim>\<open>getLegalMoves\<close> for a piece of that colour returns the empty list. The side has a
  legal move: one of these calls returns a list that is not empty.
\<close>

definition noLegalMove :: "nat \<Rightarrow> Board \<Rightarrow> PieceColor \<Rightarrow> Position option \<Rightarrow> bool" where
  "noLegalMove n b c ept =
     list_all (\<lambda>sq. case getPiece b sq of
                      None \<Rightarrow> True
                    | Some p \<Rightarrow> if color p = c then getLegalMoves n b sq ept = Some [] else True)
              allSquares"

definition someLegalMove :: "nat \<Rightarrow> Board \<Rightarrow> PieceColor \<Rightarrow> Position option \<Rightarrow> bool" where
  "someLegalMove n b c ept =
     list_ex (\<lambda>sq. case getPiece b sq of
                     None \<Rightarrow> False
                   | Some p \<Rightarrow> color p = c \<and>
                       (case getLegalMoves n b sq ept of Some ms \<Rightarrow> ms \<noteq> [] | None \<Rightarrow> False))
             allSquares"

section \<open>More example positions\<close>

definition man :: "PieceType \<Rightarrow> PieceColor \<Rightarrow> bool \<Rightarrow> Square" where
  "man t c m = Some \<lparr>ptype = t, color = c, hasMoved = m\<rparr>"

definition gameOn :: "Board \<Rightarrow> PieceColor \<Rightarrow> Status \<Rightarrow> GameState" where
  "gameOn b c st =
     \<lparr>board = b, turn = c, status = st, moves = [],
      whiteTime = Finite 600 0, blackTime = Finite 600 0, lastMove = None, enPassantTarget = None,
      winner = None, drawOffer = None\<rparr>"

text \<open>White: king e1, pawn a7 about to promote. Black: king h8.\<close>

definition promotionBoard :: Board where
  "promotionBoard =
     [[None, None, None, None, None, None, None, man King Black True],
      [man Pawn White True, None, None, None, None, None, None, None],
      emptyRow, emptyRow, emptyRow, emptyRow, emptyRow,
      [None, None, None, None, man King White True, None, None, None]]"

text \<open>White: king e1, pawn e2 on its starting square. Black: king e8.\<close>

definition pawnStartBoard :: Board where
  "pawnStartBoard =
     [[None, None, None, None, man King Black True, None, None, None],
      emptyRow, emptyRow, emptyRow, emptyRow, emptyRow,
      [None, None, None, None, man Pawn White False, None, None, None],
      [None, None, None, None, man King White True, None, None, None]]"

text \<open>
  White: king g1 behind the pawns f2, g2, h2. Black: king h8, rook a8; the rook goes to
  a1 and mates.
\<close>

definition backRankBoard :: Board where
  "backRankBoard =
     [[man Rook Black False, None, None, None, None, None, None, man King Black True],
      emptyRow, emptyRow, emptyRow, emptyRow, emptyRow,
      [None, None, None, None, None, man Pawn White False, man Pawn White False, man Pawn White False],
      [None, None, None, None, None, None, man King White True, None]]"

text \<open>
  White: king b6, queen c1. Black: king a8. The queen goes to c7 and black, not in
  check, has no move.
\<close>

definition stalemateBoard :: Board where
  "stalemateBoard =
     [[man King Black True, None, None, None, None, None, None, None],
      emptyRow,
      [None, man King White True, None, None, None, None, None, None],
      emptyRow, emptyRow, emptyRow, emptyRow,
      [None, None, man Queen White True, None, None, None, None, None]]"

text \<open>The states that \<^verbatim>\<open>makeMove\<close> returns for the rook move and for the queen move.\<close>

definition backRankMate :: GameState where
  "backRankMate =
     (let mv = \<lparr>mfrom = pos 0 0, mto = pos 7 0,
                piece = \<lparr>ptype = Rook, color = Black, hasMoved = False\<rparr>,
                captured = None, promotion = None, castling = None, enPassant = False,
                notationText = ''Ra1''\<rparr>
      in \<lparr>board =
            [[None, None, None, None, None, None, None, man King Black True],
             emptyRow, emptyRow, emptyRow, emptyRow, emptyRow,
             [None, None, None, None, None, man Pawn White False, man Pawn White False, man Pawn White False],
             [man Rook Black True, None, None, None, None, None, man King White True, None]],
          turn = White, status = Checkmate, moves = [mv],
          whiteTime = Finite 600 0, blackTime = Finite 600 0, lastMove = Some mv, enPassantTarget = None,
          winner = Some Black, drawOffer = None\<rparr>)"

definition stalemated :: GameState where
  "stalemated =
     (let mv = \<lparr>mfrom = pos 7 2, mto = pos 1 2,
                piece = \<lparr>ptype = Queen, color = White, hasMoved = True\<rparr>,
                captured = None, promotion = None, castling = None, enPassant = False,
                notationText = ''Qc7''\<rparr>
      in \<lparr>board =
            [[man King Black True, None, None, None, None, None, None, None],
             [None, None, man Queen White True, None, None, None, None, None],
             [None, man King White True, None, None, None, None, None, None],
             emptyRow, emptyRow, emptyRow, emptyRow, emptyRow],
          turn = Black, status = Stalemate, moves = [mv],
          whiteTime = Finite 600 0, blackTime = Finite 600 0, lastMove = Some mv, enPassantTarget = None,
          winner = None, drawOffer = None\<rparr>)"

section \<open>Castling, in the words of the specification\<close>

text \<open>
  For a king on column 4 of row \<open>r\<close>: the rook of a side stands on column 7 or 0 and goes
  to column 5 or 3, the king goes to column 6 or 2; the squares between king and rook are
  the columns 5, 6 or 1, 2, 3; the king's start, transit and destination squares are the
  columns 4, 5, 6 or 4, 3, 2. Castling is allowed when the king has not moved, its own
  rook of that side has not moved, the squares between them are empty, and
  \<^verbatim>\<open>isSquareAttacked\<close> returns \<^verbatim>\<open>false\<close> for each square on the king's way.
\<close>

definition rookCol :: "CastlingSide \<Rightarrow> int" where
  "rookCol side = (case side of Kingside \<Rightarrow> 7 | Queenside \<Rightarrow> 0)"

definition rookDest :: "CastlingSide \<Rightarrow> int" where
  "rookDest side = (case side of Kingside \<Rightarrow> 5 | Queenside \<Rightarrow> 3)"

definition kingDest :: "CastlingSide \<Rightarrow> int" where
  "kingDest side = (case side of Kingside \<Rightarrow> 6 | Queenside \<Rightarrow> 2)"

definition betweenCols :: "CastlingSide \<Rightarrow> int list" where
  "betweenCols side = (case side of Kingside \<Rightarrow> [5, 6] | Queenside \<Rightarrow> [1, 2, 3])"

definition kingPath :: "CastlingSide \<Rightarrow> int list" where
  "kingPath side = (case side of Kingside \<Rightarrow> [4, 5, 6] | Queenside \<Rightarrow> [4, 3, 2])"

definition castlingAllowed :: "nat \<Rightarrow> Board \<Rightarrow> int \<Rightarrow> Piece \<Rightarrow> CastlingSide \<Rightarrow> bool" where
  "castlingAllowed n b r king side =
     (\<not> hasMoved king
      \<and> (case getPiece b (pos r (rookCol side)) of
           Some rk \<Rightarrow> ptype rk = Rook \<and> color rk = color king \<and> \<not> hasMoved rk
         | None \<Rightarrow> False)
      \<and> list_all (\<lambda>c. getPiece b (pos r c) = None) (betweenCols side)
      \<and> list_all (\<lambda>c. isSquareAttacked n b (pos r c) (color king) = Some False) (kingPath side))"

text \<open>
  The attack test as section 4.2 of the specification words it: a square is attacked by
  a colour when a piece of that colour has it among its destinations of section 4.1,
  and these are taken without the castling of a king. \<open>plainMoves\<close> are the moves that
  \<^verbatim>\<open>getRawMoves\<close> collects before its castling branch, for which no attack test is
  needed. \<open>castlingConditions\<close> are the four conditions of the specification with that
  attack test.
\<close>

definition plainMoves :: "Board \<Rightarrow> Position \<Rightarrow> Position list" where
  "plainMoves b p =
     (case getPiece b p of
        None \<Rightarrow> []
      | Some pc \<Rightarrow>
          (case ptype pc of
             Pawn \<Rightarrow> pawnMoves b p pc None
           | Knight \<Rightarrow> stepMoves b p pc knightOffsets
           | Bishop \<Rightarrow> slidingMoves b p pc bishopDirs
           | Rook \<Rightarrow> slidingMoves b p pc rookDirs
           | Queen \<Rightarrow> slidingMoves b p pc (bishopDirs @ rookDirs)
           | King \<Rightarrow> stepMoves b p pc kingOffsets))"

definition attackedWithoutCastling :: "Board \<Rightarrow> Position \<Rightarrow> PieceColor \<Rightarrow> bool" where
  "attackedWithoutCastling b p defenderColor =
     list_ex (\<lambda>sq. case getPiece b sq of
                     None \<Rightarrow> False
                   | Some pc \<Rightarrow> color pc = opposite defenderColor \<and> list_ex (\<lambda>m. samePos m p) (plainMoves b sq))
             allSquares"

definition castlingConditions :: "Board \<Rightarrow> int \<Rightarrow> Piece \<Rightarrow> CastlingSide \<Rightarrow> bool" where
  "castlingConditions b r king side =
     (\<not> hasMoved king
      \<and> (case getPiece b (pos r (rookCol side)) of
           Some rk \<Rightarrow> ptype rk = Rook \<and> color rk = color king \<and> \<not> hasMoved rk
         | None \<Rightarrow> False)
      \<and> list_all (\<lambda>c. getPiece b (pos r c) = None) (betweenCols side)
      \<and> list_all (\<lambda>c. \<not> attackedWithoutCastling b (pos r c) (color king)) (kingPath side))"

section \<open>Example positions with castling\<close>

text \<open>White: king e1 and both rooks, none of them moved. Black: king e8, moved before.\<close>

definition castlingBoard :: Board where
  "castlingBoard =
     [[None, None, None, None, man King Black True, None, None, None],
      emptyRow, emptyRow, emptyRow, emptyRow, emptyRow, emptyRow,
      [man Rook White False, None, None, None, man King White False, None, None, man Rook White False]]"

text \<open>
  Both kings on their squares with their king's rooks, none of the four pieces moved, and
  nothing in between: both sides may castle short.
\<close>

definition bothCastleBoard :: Board where
  "bothCastleBoard =
     [[None, None, None, None, man King Black False, None, None, man Rook Black False],
      emptyRow, emptyRow, emptyRow, emptyRow, emptyRow, emptyRow,
      [None, None, None, None, man King White False, None, None, man Rook White False]]"

text \<open>The state that \<^verbatim>\<open>makeMove\<close> returns when white castles short on \<open>castlingBoard\<close>.\<close>

definition castledShort :: GameState where
  "castledShort =
     (let mv = \<lparr>mfrom = pos 7 4, mto = pos 7 6,
                piece = \<lparr>ptype = King, color = White, hasMoved = False\<rparr>,
                captured = None, promotion = None, castling = Some Kingside, enPassant = False,
                notationText = ''O-O''\<rparr>
      in \<lparr>board =
            [[None, None, None, None, man King Black True, None, None, None],
             emptyRow, emptyRow, emptyRow, emptyRow, emptyRow, emptyRow,
             [man Rook White False, None, None, None, None, man Rook White True, man King White True, None]],
          turn = Black, status = Playing, moves = [mv],
          whiteTime = Finite 600 0, blackTime = Finite 600 0, lastMove = Some mv, enPassantTarget = None,
          winner = None, drawOffer = None\<rparr>)"

section \<open>The initial state, in the words of the specification\<close>

text \<open>
  The standard starting position: the back ranks in the order rook, knight, bishop, queen,
  king, bishop, knight, rook, black on row 0 and white on row 7, the pawns on rows 1 and
  6, no piece moved. \<open>freshState t\<close> is the waiting state on that position with white to
  move and both clocks at \<open>t\<close> seconds.
\<close>

definition standardBoard :: Board where
  "standardBoard =
     [[man Rook Black False, man Knight Black False, man Bishop Black False, man Queen Black False,
       man King Black False, man Bishop Black False, man Knight Black False, man Rook Black False],
      replicate 8 (man Pawn Black False),
      emptyRow, emptyRow, emptyRow, emptyRow,
      replicate 8 (man Pawn White False),
      [man Rook White False, man Knight White False, man Bishop White False, man Queen White False,
       man King White False, man Bishop White False, man Knight White False, man Rook White False]]"

definition freshState :: "JSNumber \<Rightarrow> GameState" where
  "freshState t =
     \<lparr>board = standardBoard, turn = White, status = Waiting, moves = [],
      whiteTime = t, blackTime = t, lastMove = None, enPassantTarget = None,
      winner = None, drawOffer = None\<rparr>"

definition pawnCount :: "Board \<Rightarrow> nat" where
  "pawnCount b = length (filter (\<lambda>sq. case sq of Some pc \<Rightarrow> ptype pc = Pawn | None \<Rightarrow> False) (concat b))"

section \<open>Positions in which both sides may castle short\<close>

text \<open>
  On row \<open>r\<close> the king of colour \<open>c\<close> and a rook on column 7 have not moved and the two
  squares between them are empty: the conditions under which the castling branch of
  \<^verbatim>\<open>getRawMoves\<close> reaches its calls of \<^verbatim>\<open>isSquareAttacked\<close>.
\<close>

definition shortCastleOpen :: "Board \<Rightarrow> int \<Rightarrow> PieceColor \<Rightarrow> bool" where
  "shortCastleOpen b r c =
     (getPiece b (pos r 4) = Some \<lparr>ptype = King, color = c, hasMoved = False\<rparr>
      \<and> (case getPiece b (pos r 7) of
           Some rk \<Rightarrow> ptype rk = Rook \<and> \<not> hasMoved rk
         | None \<Rightarrow> False)
      \<and> getPiece b (pos r 5) = None \<and> getPiece b (pos r 6) = None)"

text \<open>
  None of the first \<open>i\<close> squares of the scan holds a piece that ends the scan of
  \<^verbatim>\<open>isSquareAttacked(board, p, d)\<close>: a piece of the other colour there is not a king and
  does not have \<open>p\<close> among its raw moves.
\<close>

definition noEarlierAttacker :: "Board \<Rightarrow> nat \<Rightarrow> Position \<Rightarrow> PieceColor \<Rightarrow> bool" where
  "noEarlierAttacker b i p d =
     list_all (\<lambda>y. case at b (row y) (col y) of
                     None \<Rightarrow> True
                   | Some pc \<Rightarrow>
                       if color pc = opposite d
                       then ptype pc \<noteq> King \<and>
                            (case getRawMoves 0 b y None of
                               Some ms \<Rightarrow> \<not> list_ex (\<lambda>m. samePos m p) ms
                             | None \<Rightarrow> False)
                       else True)
              (take i allSquares)"

text \<open>
  Both kings are at home (e1 is square 60 of the scan, e8 is square 4) with short
  castling open, and the scan for an attacker of either king's square reaches the other
  king.
\<close>

definition bothMayCastleShort :: "Board \<Rightarrow> bool" where
  "bothMayCastleShort b =
     (shortCastleOpen b 7 White \<and> shortCastleOpen b 0 Black
      \<and> noEarlierAttacker b 4 (pos 7 4) White
      \<and> noEarlierAttacker b 60 (pos 0 4) Black
      \<and> findKing b White = Some (pos 7 4) \<and> findKing b Black = Some (pos 0 4))"

text \<open>A game: the moves are handed to \<^verbatim>\<open>makeMove\<close> one after the other, as the room does.\<close>

fun playMoves :: "nat \<Rightarrow> GameState \<Rightarrow> (Position \<times> Position) list \<Rightarrow> GameState option option" where
  "playMoves n s [] = Some (Some s)"
| "playMoves n s ((fromP, toP) # rest) =
     (case makeMove n s fromP toP None of
        Some (Some s') \<Rightarrow> playMoves n s' rest
      | r \<Rightarrow> r)"

text \<open>1. e4 e5 2. Nf3 Nf6 3. Bc4, and the board after these five moves.\<close>

definition openingMoves :: "(Position \<times> Position) list" where
  "openingMoves =
     [(pos 6 4, pos 4 4), (pos 1 4, pos 3 4), (pos 7 6, pos 5 5), (pos 0 6, pos 2 5), (pos 7 5, pos 4 2)]"

definition openingBoard :: Board where
  "openingBoard =
     [[man Rook Black False, man Knight Black False, man Bishop Black False, man Queen Black False,
       man King Black False, man Bishop Black False, None, man Rook Black False],
      [man Pawn Black False, man Pawn Black False, man Pawn Black False, man Pawn Black False,
       None, man Pawn Black False, man Pawn Black False, man Pawn Black False],
      [None, None, None, None, None, man Knight Black True, None, None],
      [None, None, None, None, man Pawn Black True, None, None, None],
      [None, None, man Bishop White True, None, man Pawn White True, None, None, None],
      [None, None, None, None, None, man Knight White True, None, None],
      [man Pawn White False, man Pawn White False, man Pawn White False, man Pawn White False,
       None, man Pawn White False, man Pawn White False, man Pawn White False],
      [man Rook White False, man Knight White False, man Bishop White False, man Queen White False,
       man King White False, None, None, man Rook White False]]"

text \<open>
  The board after 1. e4 e5 2. Nf3 Nf6 3. Bc4 Be7: the first scratch board that
  \<^verbatim>\<open>getLegalMoves\<close> builds for the bishop on f8 of \<open>openingBoard\<close>.
\<close>

definition afterBe7Board :: Board where
  "afterBe7Board =
     [[man Rook Black False, man Knight Black False, man Bishop Black False, man Queen Black False,
       man King Black False, None, None, man Rook Black False],
      [man Pawn Black False, man Pawn Black False, man Pawn Black False, man Pawn Black False,
       man Bishop Black True, man Pawn Black False, man Pawn Black False, man Pawn Black False],
      [None, None, None, None, None, man Knight Black True, None, None],
      [None, None, None, None, man Pawn Black True, None, None, None],
      [None, None, man Bishop White True, None, man Pawn White True, None, None, None],
      [None, None, None, None, None, man Knight White True, None, None],
      [man Pawn White False, man Pawn White False, man Pawn White False, man Pawn White False,
       None, man Pawn White False, man Pawn White False, man Pawn White False],
      [man Rook White False, man Knight White False, man Bishop White False, man Queen White False,
       man King White False, None, None, man Rook White False]]"

section \<open>The boards as objects\<close>

text \<open>
  The functions above take and return board values. The source works on arrays: a board
  is an array of eight row arrays, \<^verbatim>\<open>cloneBoard\<close> allocates new rows, and
  \<^verbatim>\<open>getLegalMoves\<close> and \<^verbatim>\<open>makeMove\<close> write into their clones with \<^verbatim>\<open>b[r][c] = v\<close>.
  These element writes are the only writes of the engine to something it did not create
  in the same statement: a piece is never changed in place (\<^verbatim>\<open>{ ...piece, hasMoved: true }\<close>
  is a new object), no field of a state is assigned, the move list is copied by
  \<^verbatim>\<open>[...state.moves, move]\<close>. To state what a call leaves alone, the rows are put in a
  store: the list of all row arrays allocated so far. A row reference is an index of
  the store, a board object is the list of its row references, and \<open>deref\<close> reads the
  value of a board object in a store.
\<close>

type_synonym Store = "Square list list"
type_synonym BoardRef = "nat list"

definition deref :: "Store \<Rightarrow> BoardRef \<Rightarrow> Board" where
  "deref h bd = map (\<lambda>a. h ! a) bd"

text \<open>Every row reference of the board object points into the store.\<close>

definition refsIn :: "Store \<Rightarrow> BoardRef \<Rightarrow> bool" where
  "refsIn h bd = list_all (\<lambda>a. a < length h) bd"

text \<open>
  Every row of the store \<open>h\<close> is in the store \<open>h'\<close>, at the same place and with the
  same content: \<open>h'\<close> differs from \<open>h\<close> by newly allocated rows only.
\<close>

definition unchangedIn :: "Store \<Rightarrow> Store \<Rightarrow> bool" where
  "unchangedIn h h' = (length h \<le> length h' \<and> take (length h) h' = h)"

text \<open>\<^verbatim>\<open>cloneBoard\<close>: the copies of the rows are allocated at the end of the store.\<close>

definition cloneBoardS :: "Store \<Rightarrow> BoardRef \<Rightarrow> Store \<times> BoardRef" where
  "cloneBoardS h bd = (h @ cloneBoard (deref h bd), [length h ..< length h + length bd])"

text \<open>
  \<^verbatim>\<open>b[r][c] = v\<close>: the row object \<open>b[r]\<close> is changed in the store. For a row index that
  is not one of the board the source throws before it writes, and the store stays as
  it is. The column is read as in \<open>setAt\<close>; the engine writes to destinations of moves
  and to squares of pieces, which are squares of the board.
\<close>

definition writeSq :: "Store \<Rightarrow> BoardRef \<Rightarrow> int \<Rightarrow> int \<Rightarrow> Square \<Rightarrow> Store" where
  "writeSq h bd r c v =
     (if 0 \<le> r \<and> nat r < length bd
      then h[bd ! nat r := (h ! (bd ! nat r))[nat c := v]]
      else h)"

text \<open>
  The scratch board of \<^verbatim>\<open>getLegalMoves\<close> for the raw move \<open>m\<close>: a clone of the
  board, and the writes that play the move on it.
\<close>

definition testBoardS :: "Store \<Rightarrow> BoardRef \<Rightarrow> Position \<Rightarrow> Piece \<Rightarrow> Position option \<Rightarrow> Position
    \<Rightarrow> Store \<times> BoardRef" where
  "testBoardS h bd p pc ept m =
     (let (h0, tb) = cloneBoardS h bd;
          h1 = writeSq h0 tb (row m) (col m) (Some (pc\<lparr>hasMoved := True\<rparr>));
          h2 = writeSq h1 tb (row p) (col p) None
      in if ptype pc = Pawn \<and> (case ept of Some e \<Rightarrow> row m = row e \<and> col m = col e | None \<Rightarrow> False)
         then (writeSq h2 tb (if color pc = White then row m + 1 else row m - 1) (col m) None, tb)
         else (h2, tb))"

text \<open>
  The loop of \<^verbatim>\<open>getLegalMoves\<close> over the raw moves: each turn allocates a scratch board
  and asks whether the king is in check on it. The functions that only read a board
  (\<^verbatim>\<open>getPiece\<close>, \<^verbatim>\<open>getRawMoves\<close>, \<^verbatim>\<open>isInCheck\<close>, \<^verbatim>\<open>generateNotation\<close>) are given
  its value in the store at the time of the call.
\<close>

fun legalLoopS :: "nat \<Rightarrow> Store \<Rightarrow> BoardRef \<Rightarrow> Position \<Rightarrow> Piece \<Rightarrow> Position option \<Rightarrow> Position list
    \<Rightarrow> (Store \<times> Position list) option" where
  "legalLoopS n h bd p pc ept [] = Some (h, [])"
| "legalLoopS n h bd p pc ept (m # ms) =
     (let (h1, tb) = testBoardS h bd p pc ept m
      in do {
        chk \<leftarrow> isInCheck n (deref h1 tb) (color pc);
        (h2, rest) \<leftarrow> legalLoopS n h1 bd p pc ept ms;
        Some (h2, if \<not> chk then m # rest else rest)
      })"

definition getLegalMovesS :: "nat \<Rightarrow> Store \<Rightarrow> BoardRef \<Rightarrow> Position \<Rightarrow> Position option
    \<Rightarrow> (Store \<times> Position list) option" where
  "getLegalMovesS n h bd p ept =
     (case getPiece (deref h bd) p of
        None \<Rightarrow> Some (h, [])
      | Some pc \<Rightarrow> do {
          rawMoves \<leftarrow> getRawMoves n (deref h bd) p ept;
          legalLoopS n h bd p pc ept rawMoves
        })"

text \<open>The loop labelled \<^verbatim>\<open>outer\<close> over the squares that are left.\<close>

fun scanS :: "nat \<Rightarrow> Store \<Rightarrow> BoardRef \<Rightarrow> PieceColor \<Rightarrow> Position option \<Rightarrow> Position list
    \<Rightarrow> (Store \<times> bool) option" where
  "scanS n h bd c ept [] = Some (h, False)"
| "scanS n h bd c ept (sq # sqs) =
     (case at (deref h bd) (row sq) (col sq) of
        None \<Rightarrow> scanS n h bd c ept sqs
      | Some p \<Rightarrow>
          if color p = c then do {
            (h', ms) \<leftarrow> getLegalMovesS n h bd sq ept;
            if length ms > 0 then Some (h', True) else scanS n h' bd c ept sqs
          } else scanS n h bd c ept sqs)"

text \<open>
  The writes of \<^verbatim>\<open>makeMove\<close> to \<^verbatim>\<open>newBoard\<close>, in the order of the source: the rook of a
  castling move, the pawn taken en passant, the moved or promoted piece on the
  destination, the source square.
\<close>

definition castledBoardS :: "Store \<Rightarrow> BoardRef \<Rightarrow> Piece \<Rightarrow> Position \<Rightarrow> Position \<Rightarrow> Store" where
  "castledBoardS h newBoard pc fromP toP =
     (if isCastling pc fromP toP then
        let isKingside = col toP > col fromP;
            rookFromCol = (if isKingside then 7 else 0);
            rookToCol = (if isKingside then 5 else 3);
            h1 = writeSq h newBoard (row fromP) rookToCol
                   (map_option (\<lambda>rk. rk\<lparr>hasMoved := True\<rparr>) (at (deref h newBoard) (row fromP) rookFromCol))
        in writeSq h1 newBoard (row fromP) rookFromCol None
      else h)"

definition movedBoardS :: "Store \<Rightarrow> BoardRef \<Rightarrow> GameState \<Rightarrow> Piece \<Rightarrow> Position \<Rightarrow> Position
    \<Rightarrow> PieceType option \<Rightarrow> Store" where
  "movedBoardS h newBoard state pc fromP toP promo =
     (let h1 = castledBoardS h newBoard pc fromP toP;
          h2 = (if isEnPassant (enPassantTarget state) pc toP
                then writeSq h1 newBoard (capturedPawnRow pc toP) (col toP) None else h1);
          h3 = (if isPromotion pc toP
                then writeSq h2 newBoard (row toP) (col toP)
                       (Some \<lparr>ptype = promotedTo promo, color = color pc, hasMoved = True\<rparr>)
                else writeSq h2 newBoard (row toP) (col toP) (Some (pc\<lparr>hasMoved := True\<rparr>)))
      in writeSq h3 newBoard (row fromP) (col fromP) None)"

text \<open>
  The record \<^verbatim>\<open>move\<close>. \<open>h0\<close> is the store when \<^verbatim>\<open>newBoard\<close> has been allocated, \<open>hw\<close> the
  store after the writes, when \<^verbatim>\<open>generateNotation\<close> reads the board \<open>bd\<close> of the state.
\<close>

definition moveRecordS :: "Store \<Rightarrow> Store \<Rightarrow> BoardRef \<Rightarrow> BoardRef \<Rightarrow> GameState \<Rightarrow> Piece \<Rightarrow> Position
    \<Rightarrow> Position \<Rightarrow> PieceType option \<Rightarrow> Move" where
  "moveRecordS h0 hw bd newBoard state pc fromP toP promo =
     (let h1 = castledBoardS h0 newBoard pc fromP toP;
          move = \<lparr>mfrom = fromP, mto = toP, piece = pc,
                  captured = (if isEnPassant (enPassantTarget state) pc toP
                              then at (deref h1 newBoard) (capturedPawnRow pc toP) (col toP)
                              else getPiece (deref h0 newBoard) toP),
                  promotion = (if isPromotion pc toP then Some (promotedTo promo) else None),
                  castling = (if isCastling pc fromP toP
                              then Some (if col toP > col fromP then Kingside else Queenside)
                              else None),
                  enPassant = isEnPassant (enPassantTarget state) pc toP,
                  notationText = []\<rparr>
      in move\<lparr>notationText := generateNotation (deref hw bd) move\<rparr>)"

text \<open>
  \<^verbatim>\<open>makeMove\<close> on a state object whose \<^verbatim>\<open>board\<close> field is the board object \<open>bd\<close>; the
  record \<open>state\<close> gives the other fields. The result is the store after the call and
  either \<^verbatim>\<open>null\<close> or the new state with the board object of its \<^verbatim>\<open>board\<close> field.
  \<open>applyLegalS\<close> is the part after the two early returns.
\<close>

definition applyLegalS :: "nat \<Rightarrow> Store \<Rightarrow> BoardRef \<Rightarrow> GameState \<Rightarrow> Piece \<Rightarrow> Position \<Rightarrow> Position
    \<Rightarrow> PieceType option \<Rightarrow> (Store \<times> BoardRef \<times> GameState) option" where
  "applyLegalS n h bd state pc fromP toP promo =
     (let (h0, newBoard) = cloneBoardS h bd;
          hw = movedBoardS h0 newBoard state pc fromP toP promo;
          move = moveRecordS h0 hw bd newBoard state pc fromP toP promo;
          newEpt = newEnPassantTarget pc fromP toP;
          nextTurn = opposite (turn state);
          status0 = (if status state = Waiting then Playing else status state)
      in do {
        (h1, hasLegal) \<leftarrow> scanS n hw newBoard nextTurn newEpt allSquares;
        (status1, winner1) \<leftarrow>
          (if \<not> hasLegal then do {
             chk \<leftarrow> isInCheck n (deref h1 newBoard) nextTurn;
             Some (if chk then (Checkmate, Some (turn state)) else (Stalemate, None))
           } else Some (status0, None));
        Some (h1, newBoard,
              state\<lparr>board := deref h1 newBoard, turn := nextTurn, status := status1,
                    moves := moves state @ [move], lastMove := Some move,
                    enPassantTarget := newEpt, winner := winner1\<rparr>)
      })"

definition makeMoveS :: "nat \<Rightarrow> Store \<Rightarrow> BoardRef \<Rightarrow> GameState \<Rightarrow> Position \<Rightarrow> Position \<Rightarrow> PieceType option
    \<Rightarrow> (Store \<times> (BoardRef \<times> GameState) option) option" where
  "makeMoveS n h bd state fromP toP promo =
     (case getPiece (deref h bd) fromP of
        None \<Rightarrow> Some (h, None)
      | Some pc \<Rightarrow>
          if color pc \<noteq> turn state then Some (h, None)
          else do {
            (h1, legalMoves) \<leftarrow> getLegalMovesS n h bd fromP (enPassantTarget state);
            if \<not> list_ex (\<lambda>m. samePos m toP) legalMoves then Some (h1, None)
            else do {
              (h2, newBoard, state') \<leftarrow> applyLegalS n h1 bd state pc fromP toP promo;
              Some (h2, Some (newBoard, state'))
            }
          })"

text \<open>A store that holds the board of a state in its first rows, and that board object.\<close>

definition storeOf :: "GameState \<Rightarrow> Store" where
  "storeOf state = board state"

definition boardOf :: "GameState \<Rightarrow> BoardRef" where
  "boardOf state = [0 ..< length (board state)]"

section \<open>Basic facts\<close>

lemma samePos_eq: "samePos m p = (m = p)"
  by (cases m, cases p) (auto simp: samePos_def)

lemma list_ex_samePos: "list_ex (\<lambda>m. samePos m p) ms = (p \<in> set ms)"
  by (auto simp: list_ex_iff samePos_eq)

lemma cloneBoard_id: "cloneBoard b = b"
proof -
  have "(\<lambda>p. case p of Some pc \<Rightarrow> Some pc | None \<Rightarrow> None) = (\<lambda>p::Square. p)"
    by (auto split: option.splits)
  then show ?thesis by (simp add: cloneBoard_def)
qed

lemma opposite_neq: "opposite c \<noteq> c"
  by (cases c) (auto simp: opposite_def)

lemma filterM_subset: "filterM f xs = Some ys \<Longrightarrow> set ys \<subseteq> set xs"
  by (induction xs arbitrary: ys) (auto split: bind_splits if_splits)

lemma anyM_False_iff: "anyM f xs = Some False \<longleftrightarrow> (\<forall>x \<in> set xs. f x = Some False)"
  by (induction xs) (auto split: bind_splits if_splits)

lemma anyM_True_D: "anyM f xs = Some True \<Longrightarrow> \<exists>x \<in> set xs. f x = Some True"
  by (induction xs) (auto split: bind_splits if_splits)

lemma set_allSquares: "set allSquares = {p. isValidPosition p}"
proof -
  have eq: "set allSquares = (\<Union>r\<in>{0..7}. (\<lambda>c. pos r c) ` {0..7})"
    by (simp only: allSquares_def set_concat set_map set_upto image_image)
  have "\<And>p. p \<in> (\<Union>r\<in>{0..7}. (\<lambda>c. pos r c) ` {0..7}) \<longleftrightarrow> isValidPosition p"
  proof -
    fix p :: Position
    have p: "p = pos (row p) (col p)" by (simp add: pos_def)
    show "p \<in> (\<Union>r\<in>{0..7}. (\<lambda>c. pos r c) ` {0..7}) \<longleftrightarrow> isValidPosition p"
    proof
      assume "p \<in> (\<Union>r\<in>{0..7}. (\<lambda>c. pos r c) ` {0..7})"
      then obtain r c where "r \<in> {0..7}" "c \<in> {0..7}" "p = pos r c" by blast
      then show "isValidPosition p" by (simp add: isValidPosition_def pos_def)
    next
      assume "isValidPosition p"
      then have "row p \<in> {0..7}" "col p \<in> {0..7}" by (auto simp: isValidPosition_def)
      with p show "p \<in> (\<Union>r\<in>{0..7}. (\<lambda>c. pos r c) ` {0..7})" by blast
    qed
  qed
  with eq show ?thesis by blast
qed

lemma getLegalMoves_raw:
  "getLegalMoves n b p ept = Some ms \<Longrightarrow> \<exists>raw. getRawMoves n b p ept = Some raw \<and> set ms \<subseteq> set raw"
  by (auto simp: getLegalMoves_def getRawMoves.simps dest: filterM_subset split: option.splits bind_splits)

section \<open>The parts of makeMove\<close>

lemma terminalCheck_Some:
  assumes "terminalCheck n b c ept st0 mv = Some (st, w)"
  shows "\<exists>hasLegal. hasLegalMoves n b c ept = Some hasLegal \<and>
     (if hasLegal then st = st0 \<and> w = None
      else \<exists>chk. isInCheck n b c = Some chk \<and> st = (if chk then Checkmate else Stalemate)
                 \<and> w = (if chk then Some mv else None))"
  using assms unfolding terminalCheck_def
  by (auto split: bind_splits if_splits)

lemma applyLegal_Some:
  assumes "applyLegal n s pc f t p = Some s'"
  shows "terminalCheck n (movedBoard s pc f t p) (opposite (turn s)) (newEnPassantTarget pc f t)
           (if status s = Waiting then Playing else status s) (turn s) = Some (status s', winner s')
       \<and> s' = s\<lparr>board := movedBoard s pc f t p, turn := opposite (turn s), status := status s',
            moves := moves s @ [moveRecord s pc f t p], lastMove := Some (moveRecord s pc f t p),
            enPassantTarget := newEnPassantTarget pc f t, winner := winner s'\<rparr>"
  using assms unfolding applyLegal_def Let_def
  by (auto split: bind_splits prod.splits)

lemma makeMove_Some_Some:
  "makeMove n s f t p = Some (Some s') \<longleftrightarrow>
     (\<exists>pc ms. getPiece (board s) f = Some pc \<and> color pc = turn s \<and>
        getLegalMoves n (board s) f (enPassantTarget s) = Some ms \<and> t \<in> set ms \<and>
        applyLegal n s pc f t p = Some s')"
  unfolding makeMove_def
  by (auto simp: list_ex_samePos split: option.splits bind_splits if_splits)

lemma makeMove_Some_None:
  "makeMove n s f t p = Some None \<longleftrightarrow>
     (case getPiece (board s) f of None \<Rightarrow> True
      | Some pc \<Rightarrow> color pc \<noteq> turn s \<or>
          (\<exists>ms. getLegalMoves n (board s) f (enPassantTarget s) = Some ms \<and> t \<notin> set ms))"
  unfolding makeMove_def
  by (auto simp: list_ex_samePos split: option.splits bind_splits if_splits)

lemma makeMove_fields:
  assumes "makeMove n s f t p = Some (Some s')"
  shows "\<exists>pc. getPiece (board s) f = Some pc \<and> color pc = turn s
           \<and> board s' = movedBoard s pc f t p
           \<and> enPassantTarget s' = newEnPassantTarget pc f t
           \<and> moves s' = moves s @ [moveRecord s pc f t p]
           \<and> lastMove s' = Some (moveRecord s pc f t p)"
    and "turn s' = opposite (turn s)"
    and "drawOffer s' = drawOffer s"
    and "whiteTime s' = whiteTime s" and "blackTime s' = blackTime s"
proof -
  from assms obtain pc where pc: "getPiece (board s) f = Some pc" "color pc = turn s"
    and a: "applyLegal n s pc f t p = Some s'"
    unfolding makeMove_Some_Some by blast
  note eq = applyLegal_Some[OF a, THEN conjunct2]
  show "\<exists>pc. getPiece (board s) f = Some pc \<and> color pc = turn s
           \<and> board s' = movedBoard s pc f t p
           \<and> enPassantTarget s' = newEnPassantTarget pc f t
           \<and> moves s' = moves s @ [moveRecord s pc f t p]
           \<and> lastMove s' = Some (moveRecord s pc f t p)"
    using pc by (subst eq, subst eq, subst eq, subst eq) simp
  show "turn s' = opposite (turn s)" by (subst eq) simp
  show "drawOffer s' = drawOffer s" by (subst eq) simp
  show "whiteTime s' = whiteTime s" by (subst eq) simp
  show "blackTime s' = blackTime s" by (subst eq) simp
qed

section \<open>Check on a board without a king\<close>

lemma findKing_None:
  assumes "\<forall>r\<in>{0..<8}. \<forall>c\<in>{0..<8}.
             (case b ! r ! c of Some pc \<Rightarrow> \<not> (ptype pc = King \<and> color pc = clr) | None \<Rightarrow> True)"
  shows "findKing b clr = None"
proof -
  have "\<And>sq. sq \<in> set allSquares \<Longrightarrow>
          \<not> (case at b (row sq) (col sq) of Some pc \<Rightarrow> ptype pc = King \<and> color pc = clr | None \<Rightarrow> False)"
  proof -
    fix sq assume "sq \<in> set allSquares"
    then have v: "isValidPosition sq" by (simp add: set_allSquares)
    then have "nat (row sq) \<in> {0..<8}" "nat (col sq) \<in> {0..<8}"
      by (auto simp: isValidPosition_def)
    with assms have "case b ! nat (row sq) ! nat (col sq) of
        Some pc \<Rightarrow> \<not> (ptype pc = King \<and> color pc = clr) | None \<Rightarrow> True"
      by blast
    then show "\<not> (case at b (row sq) (col sq) of Some pc \<Rightarrow> ptype pc = King \<and> color pc = clr | None \<Rightarrow> False)"
      by (simp add: at_def split: option.splits)
  qed
  then show ?thesis
    unfolding findKing_def find_None_iff by blast
qed

text \<open>
  Claim C10. On a board of which no square holds a king of colour \<open>clr\<close>,
  \<^verbatim>\<open>isInCheck(board, clr)\<close> returns \<^verbatim>\<open>false\<close>. It does so for every depth budget,
  also the budget 0 under which no call of \<^verbatim>\<open>isSquareAttacked\<close> could return: the
  attack test is not called, and the missing king is tolerated without a failure.
\<close>

theorem isInCheck_without_king:
  assumes "\<forall>r\<in>{0..<8}. \<forall>c\<in>{0..<8}.
             (case b ! r ! c of Some pc \<Rightarrow> \<not> (ptype pc = King \<and> color pc = clr) | None \<Rightarrow> True)"
  shows "isInCheck n b clr = Some False \<and> isInCheck 0 b clr = Some False \<and> findKing b clr = None"
  using findKing_None[OF assms] by (simp add: isInCheck_def)

theorem isInCheck_without_king_witness:
  "isInCheck 0 whiteKingAlone Black = Some False
   \<and> isInCheck 3 whiteKingAlone Black = Some False
   \<and> isSquareAttacked 0 whiteKingAlone (pos 0 4) Black = None"
proof -
  have h: "\<forall>r\<in>{0..<8}. \<forall>c\<in>{0..<8}.
      (case whiteKingAlone ! r ! c of Some pc \<Rightarrow> \<not> (ptype pc = King \<and> color pc = Black) | None \<Rightarrow> True)"
    by code_simp
  show ?thesis
    using isInCheck_without_king[OF h, of 3] by (simp add: isSquareAttacked.simps)
qed

section \<open>Draw offers and the status of the game\<close>




lemma movedBoard_status: "movedBoard (s\<lparr>status := st\<rparr>) pc f t p = movedBoard s pc f t p"
  by (simp add: movedBoard_def)

lemma terminalCheck_returns_any_status:
  "(\<exists>r. terminalCheck n b c ept st0 mv = Some r) \<longleftrightarrow> (\<exists>r. terminalCheck n b c ept st1 mv = Some r)"
  unfolding terminalCheck_def
  by (auto split: bind_splits if_splits)

lemma applyLegal_returns_iff:
  "(\<exists>s'. applyLegal n s pc f t p = Some s') \<longleftrightarrow>
   (\<exists>r. terminalCheck n (movedBoard s pc f t p) (opposite (turn s)) (newEnPassantTarget pc f t)
           (if status s = Waiting then Playing else status s) (turn s) = Some r)"
  unfolding applyLegal_def Let_def
  by (auto split: bind_splits prod.splits)

lemma applyLegal_any_status:
  "(\<exists>s'. applyLegal n (s\<lparr>status := st\<rparr>) pc f t p = Some s') \<longleftrightarrow> (\<exists>s'. applyLegal n s pc f t p = Some s')"
  unfolding applyLegal_returns_iff movedBoard_status
  using terminalCheck_returns_any_status by simp

text \<open>
  Claim C1, as the code has it. \<^verbatim>\<open>makeMove\<close> never reads \<^verbatim>\<open>state.status\<close> to decide on
  a move: with any status put in the place of the one the state has, terminal or not,
  the call returns \<^verbatim>\<open>null\<close> exactly when the call on the state itself returns
  \<^verbatim>\<open>null\<close>, it returns a new state exactly when that call returns one, and it does not
  return exactly when that call does not return. The result is \<^verbatim>\<open>null\<close> exactly when
  there is no piece on the source square, when the piece is not of the colour to move,
  or when \<^verbatim>\<open>getLegalMoves\<close> returns a list that does not contain the destination. A
  status of checkmate, stalemate, draw or resigned is no ground for a rejection.
\<close>

theorem makeMove_ignores_status:
  "(makeMove n (s\<lparr>status := st\<rparr>) f t p = Some None \<longleftrightarrow> makeMove n s f t p = Some None)
   \<and> ((\<exists>s'. makeMove n (s\<lparr>status := st\<rparr>) f t p = Some (Some s'))
        \<longleftrightarrow> (\<exists>s'. makeMove n s f t p = Some (Some s')))
   \<and> (makeMove n (s\<lparr>status := st\<rparr>) f t p = None \<longleftrightarrow> makeMove n s f t p = None)
   \<and> (makeMove n s f t p = Some None \<longleftrightarrow>
        (case getPiece (board s) f of
           None \<Rightarrow> True
         | Some pc \<Rightarrow> color pc \<noteq> turn s \<or>
             (\<exists>ms. getLegalMoves n (board s) f (enPassantTarget s) = Some ms \<and> t \<notin> set ms)))"
proof -
  have 1: "makeMove n (s\<lparr>status := st\<rparr>) f t p = Some None \<longleftrightarrow> makeMove n s f t p = Some None"
    by (simp add: makeMove_Some_None split: option.splits)
  have 2: "(\<exists>s'. makeMove n (s\<lparr>status := st\<rparr>) f t p = Some (Some s'))
        \<longleftrightarrow> (\<exists>s'. makeMove n s f t p = Some (Some s'))"
  proof -
    have "(\<exists>s'. makeMove n (s\<lparr>status := st\<rparr>) f t p = Some (Some s')) \<longleftrightarrow>
          (\<exists>pc ms. getPiece (board s) f = Some pc \<and> color pc = turn s \<and>
             getLegalMoves n (board s) f (enPassantTarget s) = Some ms \<and> t \<in> set ms \<and>
             (\<exists>s'. applyLegal n (s\<lparr>status := st\<rparr>) pc f t p = Some s'))"
      unfolding makeMove_Some_Some by auto
    also have "\<dots> \<longleftrightarrow>
          (\<exists>pc ms. getPiece (board s) f = Some pc \<and> color pc = turn s \<and>
             getLegalMoves n (board s) f (enPassantTarget s) = Some ms \<and> t \<in> set ms \<and>
             (\<exists>s'. applyLegal n s pc f t p = Some s'))"
      unfolding applyLegal_any_status ..
    also have "\<dots> \<longleftrightarrow> (\<exists>s'. makeMove n s f t p = Some (Some s'))"
      unfolding makeMove_Some_Some by auto
    finally show ?thesis .
  qed
  have c: "r = None \<longleftrightarrow> \<not> (r = Some None \<or> (\<exists>s'. r = Some (Some s')))" for r :: "GameState option option"
    by (cases r) auto
  have 3: "makeMove n (s\<lparr>status := st\<rparr>) f t p = None \<longleftrightarrow> makeMove n s f t p = None"
    unfolding c[of "makeMove n (s\<lparr>status := st\<rparr>) f t p"] c[of "makeMove n s f t p"] 1 2 ..
  show ?thesis using 1 2 3 makeMove_Some_None[of n s f t p] by blast
qed

theorem makeMove_ignores_status_witness:
  "makeMove 1 ((kingsOnlyState Playing None)\<lparr>status := Draw\<rparr>) (pos 7 4) (pos 5 4) None = Some None
   \<and> (\<exists>s'. makeMove 1 ((kingsOnlyState Playing None)\<lparr>status := Draw\<rparr>) (pos 7 4) (pos 7 3) None = Some (Some s'))"
proof -
  have r: "makeMove 1 (kingsOnlyState Playing None) (pos 7 4) (pos 5 4) None = Some None"
    by code_simp
  have a: "makeMove 1 (kingsOnlyState Playing None) (pos 7 4) (pos 7 3) None
             = Some (Some (kingsOnlyAfterKd1 Playing None))"
    by code_simp
  show ?thesis
    using r a
      makeMove_ignores_status[where n = 1 and s = "kingsOnlyState Playing None" and st = Draw
        and f = "pos 7 4" and t = "pos 5 4" and p = None]
      makeMove_ignores_status[where n = 1 and s = "kingsOnlyState Playing None" and st = Draw
        and f = "pos 7 4" and t = "pos 7 3" and p = None]
    by blast
qed

text \<open>
  The claim as the specification states it (a terminal state rejects every move) fails:
  under each of the four terminal statuses the king move e1-d1 is accepted, and the
  status stays what it was.
\<close>

theorem terminal_state_accepts_move:
  "makeMove 1 (kingsOnlyState Resigned None) (pos 7 4) (pos 7 3) None
     = Some (Some (kingsOnlyAfterKd1 Resigned None))
   \<and> makeMove 1 (kingsOnlyState Draw None) (pos 7 4) (pos 7 3) None
     = Some (Some (kingsOnlyAfterKd1 Draw None))
   \<and> makeMove 1 (kingsOnlyState Checkmate None) (pos 7 4) (pos 7 3) None
     = Some (Some (kingsOnlyAfterKd1 Checkmate None))
   \<and> makeMove 1 (kingsOnlyState Stalemate None) (pos 7 4) (pos 7 3) None
     = Some (Some (kingsOnlyAfterKd1 Stalemate None))"
  by code_simp

section \<open>Rejected moves\<close>

lemma makeMove_null:
  assumes "getPiece (board s) f = None
           \<or> (\<exists>pc. getPiece (board s) f = Some pc \<and> color pc \<noteq> turn s)
           \<or> (\<exists>ms. getLegalMoves n (board s) f (enPassantTarget s) = Some ms \<and> t \<notin> set ms)"
  shows "makeMove n s f t p = Some None"
proof -
  have "getLegalMoves n (board s) f (enPassantTarget s) = Some []" if "getPiece (board s) f = None"
    using that by (simp add: getLegalMoves_def)
  with assms show ?thesis
    unfolding makeMove_Some_None by (auto split: option.splits)
qed

section \<open>Reading and writing squares\<close>

lemma wf_setAt: "wf_board (setAt b r c v) = wf_board b"
proof -
  have "list_all (\<lambda>x. length x = 8) (b[nat r := (b ! nat r)[nat c := v]])
        = list_all (\<lambda>x. length x = 8) b"
  proof (cases "nat r < length b")
    case True
    then show ?thesis
      by (auto simp: list_all_length nth_list_update)
  next
    case False
    then show ?thesis by (simp add: list_update_beyond)
  qed
  then show ?thesis by (simp add: wf_board_def setAt_def)
qed

lemma at_setAt_same:
  assumes "wf_board b" "0 \<le> r" "r < 8" "0 \<le> c" "c < 8"
  shows "at (setAt b r c v) r c = v"
proof -
  from assms have "nat r < length b" by (simp add: wf_board_def)
  moreover from this assms have "length (b ! nat r) = 8"
    by (simp add: wf_board_def list_all_length)
  ultimately show ?thesis using assms by (simp add: at_def setAt_def)
qed

lemma at_setAt_other:
  assumes "0 \<le> r" "0 \<le> c" "0 \<le> r'" "0 \<le> c'" "r' \<noteq> r \<or> c' \<noteq> c"
  shows "at (setAt b r c v) r' c' = at b r' c'"
proof (cases "nat r < length b")
  case True
  show ?thesis
  proof (cases "r' = r")
    case True
    with assms have "nat c' \<noteq> nat c" by auto
    with True \<open>nat r < length b\<close> show ?thesis by (simp add: at_def setAt_def)
  next
    case False
    with assms have "nat r' \<noteq> nat r" by auto
    then show ?thesis by (simp add: at_def setAt_def)
  qed
next
  case False
  then show ?thesis by (simp add: at_def setAt_def list_update_beyond)
qed

lemma getPiece_Some_valid: "getPiece b p = Some pc \<Longrightarrow> isValidPosition p"
  by (auto simp: getPiece_def split: if_splits)

lemma getPiece_at: "isValidPosition p \<Longrightarrow> getPiece b p = at b (row p) (col p)"
  by (simp add: getPiece_def)

lemma wf_castledBoard: "wf_board (castledBoard b pc f t) = wf_board b"
  by (simp add: castledBoard_def Let_def wf_setAt)

section \<open>The raw moves of a pawn\<close>

lemma getRawMoves_pawn:
  "getPiece b p = Some pc \<Longrightarrow> ptype pc = Pawn \<Longrightarrow> getRawMoves n b p ept = Some (pawnMoves b p pc ept)"
  by (simp add: getRawMoves.simps)

lemma pawnMoves_cases:
  assumes "m \<in> set (pawnMoves b p pc ept)"
  shows "(m = pos (row p + forwardDirection (color pc)) (col p) \<and> isValidPosition m)
       \<or> (m = pos (row p + 2 * forwardDirection (color pc)) (col p)
            \<and> row p = (if color pc = White then 6 else 1))
       \<or> (m = pos (row p + forwardDirection (color pc)) (col p - 1) \<and> isValidPosition m)
       \<or> (m = pos (row p + forwardDirection (color pc)) (col p + 1) \<and> isValidPosition m)"
  using assms unfolding pawnMoves_def Let_def forwardDirection_def
  by (auto split: if_splits option.splits)

lemma accepted_pawn_move:
  assumes "makeMove n s f t p = Some (Some s')" "getPiece (board s) f = Some pc" "ptype pc = Pawn"
  shows "t \<in> set (pawnMoves (board s) f pc (enPassantTarget s))"
proof -
  from assms(1) obtain ms where ms: "getLegalMoves n (board s) f (enPassantTarget s) = Some ms" "t \<in> set ms"
    unfolding makeMove_Some_Some by blast
  from getLegalMoves_raw[OF ms(1)] obtain raw where
    raw: "getRawMoves n (board s) f (enPassantTarget s) = Some raw" "set ms \<subseteq> set raw" by blast
  with getRawMoves_pawn[OF assms(2,3)] ms(2) show ?thesis by auto
qed

section \<open>The en-passant target\<close>

text \<open>
  Claim C7. After an accepted move the en-passant target is set exactly when the move
  was a two-square pawn advance, and then it is the square the pawn passed over; after
  any other accepted move it is absent. The target of the input state has no part in
  the new one, so no target is carried over to a later ply.
\<close>

theorem enPassantTarget_after_move:
  assumes "makeMove n s f t p = Some (Some s')" and "getPiece (board s) f = Some pc"
  shows "enPassantTarget s' = (if twoSquareAdvance pc f t then Some (passedSquare pc f) else None)
         \<and> (enPassantTarget s' \<noteq> None \<longleftrightarrow> twoSquareAdvance pc f t)"
proof -
  from makeMove_fields(1)[OF assms(1)] assms(2)
  have e: "enPassantTarget s' = newEnPassantTarget pc f t" by auto
  have "newEnPassantTarget pc f t = (if twoSquareAdvance pc f t then Some (passedSquare pc f) else None)"
  proof (cases "ptype pc = Pawn")
    case False
    then show ?thesis by (simp add: newEnPassantTarget_def twoSquareAdvance_def)
  next
    case True
    from pawnMoves_cases[OF accepted_pawn_move[OF assms True]]
    have "\<bar>row t - row f\<bar> = 2 \<longleftrightarrow>
            col t = col f \<and> row t = row f + 2 * forwardDirection (color pc)"
      by (auto simp: pos_def forwardDirection_def split: if_splits)
    moreover have "(row f + (row f + 2 * forwardDirection (color pc))) div 2
                     = row f + forwardDirection (color pc)"
      by simp
    ultimately show ?thesis
      using True by (auto simp: newEnPassantTarget_def twoSquareAdvance_def passedSquare_def)
  qed
  with e show ?thesis by simp
qed

theorem enPassantTarget_after_move_witness:
  "map_option (map_option enPassantTarget)
      (makeMove 1 (gameOn pawnStartBoard White Playing) (pos 6 4) (pos 4 4) None)
     = Some (Some (Some (pos 5 4)))
   \<and> map_option (map_option enPassantTarget)
      (makeMove 1 ((gameOn pawnStartBoard White Playing)\<lparr>enPassantTarget := Some (pos 2 0)\<rparr>)
         (pos 6 4) (pos 5 4) None)
     = Some (Some None)"
proof -
  let ?s = "gameOn pawnStartBoard White Playing"
  let ?s2 = "?s\<lparr>enPassantTarget := Some (pos 2 0)\<rparr>"
  let ?pc = "\<lparr>ptype = Pawn, color = White, hasMoved = False\<rparr>"
  have a: "makeMove 1 ?s (pos 6 4) (pos 4 4) None \<noteq> None
         \<and> makeMove 1 ?s (pos 6 4) (pos 4 4) None \<noteq> Some None
         \<and> makeMove 1 ?s2 (pos 6 4) (pos 5 4) None \<noteq> None
         \<and> makeMove 1 ?s2 (pos 6 4) (pos 5 4) None \<noteq> Some None"
    by code_simp
  then obtain s1 s2 where s: "makeMove 1 ?s (pos 6 4) (pos 4 4) None = Some (Some s1)"
      "makeMove 1 ?s2 (pos 6 4) (pos 5 4) None = Some (Some s2)"
    by auto
  have g: "getPiece (board ?s) (pos 6 4) = Some ?pc \<and> getPiece (board ?s2) (pos 6 4) = Some ?pc
         \<and> twoSquareAdvance ?pc (pos 6 4) (pos 4 4) \<and> \<not> twoSquareAdvance ?pc (pos 6 4) (pos 5 4)
         \<and> passedSquare ?pc (pos 6 4) = pos 5 4"
    by code_simp
  show ?thesis
    using enPassantTarget_after_move[OF s(1), of ?pc] enPassantTarget_after_move[OF s(2), of ?pc] g s
    by simp
qed

section \<open>Promotion\<close>

lemma accepted_cases:
  "x \<noteq> None \<Longrightarrow> x \<noteq> Some None \<Longrightarrow> \<exists>s'. x = Some (Some s')"
  by auto

lemma pawnMoves_rows:
  assumes "m \<in> set (pawnMoves b p pc ept)"
  shows "(row m = row p + forwardDirection (color pc) \<and> isValidPosition m)
       \<or> (row m = row p + 2 * forwardDirection (color pc) \<and> col m = col p
            \<and> row p = (if color pc = White then 6 else 1))"
  using pawnMoves_cases[OF assms] by (auto simp: pos_def)

lemma movedBoard_at_destination:
  assumes wf: "wf_board (board s)" and t: "isValidPosition t" and f: "isValidPosition f" and ne: "f \<noteq> t"
  shows "getPiece (movedBoard s pc f t p) t =
           (if isPromotion pc t
            then Some \<lparr>ptype = promotedTo p, color = color pc, hasMoved = True\<rparr>
            else Some (pc\<lparr>hasMoved := True\<rparr>))"
proof -
  define b2 where "b2 = (let b1 = castledBoard (cloneBoard (board s)) pc f t
      in if isEnPassant (enPassantTarget s) pc t
         then setAt b1 (capturedPawnRow pc t) (col t) None else b1)"
  define v where "v = (if isPromotion pc t
            then Some \<lparr>ptype = promotedTo p, color = color pc, hasMoved = True\<rparr>
            else Some (pc\<lparr>hasMoved := True\<rparr>))"
  have wf2: "wf_board b2"
    using wf by (simp add: b2_def Let_def wf_setAt wf_castledBoard cloneBoard_id)
  have mb: "movedBoard s pc f t p = setAt (setAt b2 (row t) (col t) v) (row f) (col f) None"
    by (simp add: movedBoard_def b2_def v_def Let_def)
  from ne have d: "row t \<noteq> row f \<or> col t \<noteq> col f"
    by (cases f, cases t) auto
  have "at (setAt (setAt b2 (row t) (col t) v) (row f) (col f) None) (row t) (col t)
          = at (setAt b2 (row t) (col t) v) (row t) (col t)"
    using t f d by (intro at_setAt_other) (auto simp: isValidPosition_def)
  also have "\<dots> = v"
    using t wf2 by (intro at_setAt_same) (auto simp: isValidPosition_def)
  finally show ?thesis using t by (simp add: mb getPiece_at v_def)
qed

text \<open>
  Claim C8, as the code has it. When an accepted move takes a pawn to its farthest
  rank, the pawn is replaced by a piece of its colour whose type is the promotion
  argument whenever one is given, whichever of the six piece types it is, and a queen
  when none is given. The engine does not test the argument: \<^verbatim>\<open>promotion || 'queen'\<close>
  falls back to the queen for an absent argument only.
\<close>

theorem promotion_takes_requested_type:
  assumes acc: "makeMove n s f t p = Some (Some s')"
    and pc: "getPiece (board s) f = Some pc" "ptype pc = Pawn"
    and far: "row t = farthestRank (color pc)"
    and wf: "wf_board (board s)"
  shows "getPiece (board s') t
           = Some \<lparr>ptype = (case p of Some ty \<Rightarrow> ty | None \<Rightarrow> Queen), color = color pc, hasMoved = True\<rparr>
         \<and> map_option promotion (lastMove s') = Some (Some (case p of Some ty \<Rightarrow> ty | None \<Rightarrow> Queen))"
proof -
  from makeMove_fields(1)[OF acc] pc(1)
  have b: "board s' = movedBoard s pc f t p" and l: "lastMove s' = Some (moveRecord s pc f t p)"
    by auto
  have fv: "isValidPosition f" by (rule getPiece_Some_valid[OF pc(1)])
  from pawnMoves_rows[OF accepted_pawn_move[OF acc pc]] far
  have tv: "isValidPosition t" and nr: "row f \<noteq> row t"
    using fv by (auto simp: forwardDirection_def farthestRank_def isValidPosition_def split: if_splits)
  from nr have ne: "f \<noteq> t" by auto
  have pr: "isPromotion pc t"
    using pc(2) far by (simp add: isPromotion_def farthestRank_def)
  show ?thesis
    using movedBoard_at_destination[OF wf tv fv ne, of pc p] pr
    by (simp add: b l promotedTo_def moveRecord_def Let_def)
qed

theorem promotion_takes_requested_type_witness:
  "map_option (map_option (\<lambda>s'. getPiece (board s') (pos 0 0)))
      (makeMove 1 (gameOn promotionBoard White Playing) (pos 1 0) (pos 0 0) (Some Knight))
     = Some (Some (Some \<lparr>ptype = Knight, color = White, hasMoved = True\<rparr>))
   \<and> map_option (map_option (\<lambda>s'. getPiece (board s') (pos 0 0)))
      (makeMove 1 (gameOn promotionBoard White Playing) (pos 1 0) (pos 0 0) None)
     = Some (Some (Some \<lparr>ptype = Queen, color = White, hasMoved = True\<rparr>))"
proof -
  let ?s = "gameOn promotionBoard White Playing"
  let ?pc = "\<lparr>ptype = Pawn, color = White, hasMoved = True\<rparr>"
  have a: "makeMove 1 ?s (pos 1 0) (pos 0 0) (Some Knight) \<noteq> None
         \<and> makeMove 1 ?s (pos 1 0) (pos 0 0) (Some Knight) \<noteq> Some None
         \<and> makeMove 1 ?s (pos 1 0) (pos 0 0) None \<noteq> None
         \<and> makeMove 1 ?s (pos 1 0) (pos 0 0) None \<noteq> Some None"
    by code_simp
  then obtain s1 s2 where s: "makeMove 1 ?s (pos 1 0) (pos 0 0) (Some Knight) = Some (Some s1)"
      "makeMove 1 ?s (pos 1 0) (pos 0 0) None = Some (Some s2)"
    by auto
  have g: "getPiece (board ?s) (pos 1 0) = Some ?pc \<and> ptype ?pc = Pawn
         \<and> row (pos 0 0) = farthestRank (color ?pc) \<and> wf_board (board ?s)"
    by code_simp
  show ?thesis
    using promotion_takes_requested_type[OF s(1), of ?pc] promotion_takes_requested_type[OF s(2), of ?pc] g s
    by simp
qed

text \<open>
  The claim as the specification states it (an invalid promotion type gives a queen)
  fails: with the promotion argument \<^verbatim>\<open>'king'\<close> the pawn on a7 becomes a second white
  king on a8.
\<close>

theorem promotion_to_king:
  "map_option (map_option (\<lambda>s'. getPiece (board s') (pos 0 0)))
      (makeMove 1 (gameOn promotionBoard White Playing) (pos 1 0) (pos 0 0) (Some King))
     = Some (Some (Some \<lparr>ptype = King, color = White, hasMoved = True\<rparr>))"
  by code_simp

section \<open>Checkmate and stalemate\<close>

lemma hasLegalMoves_False:
  assumes "hasLegalMoves n b c ept = Some False"
  shows "noLegalMove n b c ept"
proof -
  have "case getPiece b sq of None \<Rightarrow> True
        | Some p \<Rightarrow> if color p = c then getLegalMoves n b sq ept = Some [] else True"
    if sq: "sq \<in> set allSquares" for sq
  proof -
    from sq have v: "isValidPosition sq" by (simp add: set_allSquares)
    from assms sq have "(case at b (row sq) (col sq) of
                  None \<Rightarrow> Some False
                | Some p \<Rightarrow>
                    if color p = c then do {
                      ms \<leftarrow> getLegalMoves n b sq ept;
                      Some (length ms > 0)
                    } else Some False) = Some False"
      unfolding hasLegalMoves_def anyM_False_iff by blast
    then show ?thesis
      by (auto simp: getPiece_at[OF v] split: option.splits if_splits bind_splits)
  qed
  then show ?thesis by (simp add: noLegalMove_def list_all_iff)
qed

lemma hasLegalMoves_True:
  assumes "hasLegalMoves n b c ept = Some True"
  shows "someLegalMove n b c ept"
proof -
  from anyM_True_D[OF assms[unfolded hasLegalMoves_def]]
  obtain sq where sq: "sq \<in> set allSquares"
    and t: "(case at b (row sq) (col sq) of
                  None \<Rightarrow> Some False
                | Some p \<Rightarrow>
                    if color p = c then do {
                      ms \<leftarrow> getLegalMoves n b sq ept;
                      Some (length ms > 0)
                    } else Some False) = Some True"
    by blast
  from sq have v: "isValidPosition sq" by (simp add: set_allSquares)
  from t have "case getPiece b sq of
                     None \<Rightarrow> False
                   | Some p \<Rightarrow> color p = c \<and>
                       (case getLegalMoves n b sq ept of Some ms \<Rightarrow> ms \<noteq> [] | None \<Rightarrow> False)"
    by (auto simp: getPiece_at[OF v] split: option.splits if_splits bind_splits)
  with sq show ?thesis unfolding someLegalMove_def list_ex_iff by blast
qed

lemma not_both_legal:
  assumes nl: "noLegalMove n b c ept" and sl: "someLegalMove n b c ept"
  shows False
proof -
  from sl obtain sq where sq: "sq \<in> set allSquares"
    and e: "case getPiece b sq of
                     None \<Rightarrow> False
                   | Some p \<Rightarrow> color p = c \<and>
                       (case getLegalMoves n b sq ept of Some ms \<Rightarrow> ms \<noteq> [] | None \<Rightarrow> False)"
    unfolding someLegalMove_def list_ex_iff by blast
  from e obtain p where p: "getPiece b sq = Some p" "color p = c"
    and m: "case getLegalMoves n b sq ept of Some ms \<Rightarrow> ms \<noteq> [] | None \<Rightarrow> False"
    by (cases "getPiece b sq") auto
  from nl sq have "case getPiece b sq of None \<Rightarrow> True
        | Some p \<Rightarrow> if color p = c then getLegalMoves n b sq ept = Some [] else True"
    unfolding noLegalMove_def list_all_iff by blast
  with p have "getLegalMoves n b sq ept = Some []" by simp
  with m show False by simp
qed

text \<open>
  Claim C5, as the code has it. After an accepted move the loop over the pieces of the
  side to move next always decides: either that side has no legal move, or it has one.
  Without a legal move the status is checkmate, with the mover as winner, when that
  side's king is in check, and stalemate without a winner when it is not. With a legal
  move there is no winner and the status is the one carried over: playing when the
  status before the move was waiting or playing, and the status before the move when
  that was another one.
\<close>

theorem terminal_detection:
  assumes "makeMove n s f t p = Some (Some s')"
  shows "(noLegalMove n (board s') (turn s') (enPassantTarget s') \<or>
          someLegalMove n (board s') (turn s') (enPassantTarget s'))
       \<and> (noLegalMove n (board s') (turn s') (enPassantTarget s') \<longrightarrow>
            (isInCheck n (board s') (turn s') = Some True \<and> status s' = Checkmate \<and> winner s' = Some (turn s))
          \<or> (isInCheck n (board s') (turn s') = Some False \<and> status s' = Stalemate \<and> winner s' = None))
       \<and> (someLegalMove n (board s') (turn s') (enPassantTarget s') \<longrightarrow>
            winner s' = None \<and>
            status s' = (if status s = Waiting \<or> status s = Playing then Playing else status s))
       \<and> turn s' = opposite (turn s)"
proof -
  from makeMove_fields(1)[OF assms] obtain pc where pc: "getPiece (board s) f = Some pc"
    and b: "board s' = movedBoard s pc f t p" "enPassantTarget s' = newEnPassantTarget pc f t"
    by blast
  from assms pc have a: "applyLegal n s pc f t p = Some s'"
    unfolding makeMove_Some_Some by auto
  have tn: "turn s' = opposite (turn s)" by (rule makeMove_fields(2)[OF assms])
  from applyLegal_Some[OF a, THEN conjunct1]
  have tc: "terminalCheck n (board s') (turn s') (enPassantTarget s')
           (if status s = Waiting then Playing else status s) (turn s) = Some (status s', winner s')"
    by (simp add: b tn)
  from terminalCheck_Some[OF tc] obtain hasLegal where
    h: "hasLegalMoves n (board s') (turn s') (enPassantTarget s') = Some hasLegal"
    and r: "if hasLegal then status s' = (if status s = Waiting then Playing else status s) \<and> winner s' = None
      else \<exists>chk. isInCheck n (board s') (turn s') = Some chk \<and> status s' = (if chk then Checkmate else Stalemate)
                 \<and> winner s' = (if chk then Some (turn s) else None)"
    by blast
  show ?thesis
  proof (cases hasLegal)
    case True
    with h have sl: "someLegalMove n (board s') (turn s') (enPassantTarget s')"
      by (simp add: hasLegalMoves_True)
    then have "\<not> noLegalMove n (board s') (turn s') (enPassantTarget s')"
      using not_both_legal by blast
    with sl r True tn show ?thesis by simp
  next
    case False
    with h have nl: "noLegalMove n (board s') (turn s') (enPassantTarget s')"
      by (simp add: hasLegalMoves_False)
    then have "\<not> someLegalMove n (board s') (turn s') (enPassantTarget s')"
      using not_both_legal by blast
    moreover from r False obtain chk where
      "isInCheck n (board s') (turn s') = Some chk"
      "status s' = (if chk then Checkmate else Stalemate)"
      "winner s' = (if chk then Some (turn s) else None)"
      by auto
    ultimately show ?thesis using nl tn by (cases chk) simp_all
  qed
qed

theorem terminal_detection_witness:
  "makeMove 1 (gameOn backRankBoard Black Playing) (pos 0 0) (pos 7 0) None = Some (Some backRankMate)
   \<and> status backRankMate = Checkmate \<and> winner backRankMate = Some Black
   \<and> makeMove 1 (gameOn stalemateBoard White Playing) (pos 7 2) (pos 1 2) None = Some (Some stalemated)
   \<and> status stalemated = Stalemate \<and> winner stalemated = None
   \<and> makeMove 1 (kingsOnlyState Waiting None) (pos 7 4) (pos 7 3) None
        = Some (Some (kingsOnlyAfterKd1 Playing None))
   \<and> status (kingsOnlyAfterKd1 Playing None) = Playing \<and> winner (kingsOnlyAfterKd1 Playing None) = None"
proof -
  have s1: "makeMove 1 (gameOn backRankBoard Black Playing) (pos 0 0) (pos 7 0) None = Some (Some backRankMate)"
    by code_simp
  have s2: "makeMove 1 (gameOn stalemateBoard White Playing) (pos 7 2) (pos 1 2) None = Some (Some stalemated)"
    by code_simp
  have s3: "makeMove 1 (kingsOnlyState Waiting None) (pos 7 4) (pos 7 3) None
              = Some (Some (kingsOnlyAfterKd1 Playing None))"
    by code_simp
  have c1: "noLegalMove 1 (board backRankMate) (turn backRankMate) (enPassantTarget backRankMate)"
    by code_simp
  have c1': "isInCheck 1 (board backRankMate) (turn backRankMate) \<noteq> Some False
           \<and> turn (gameOn backRankBoard Black Playing) = Black"
    by code_simp
  have c2: "noLegalMove 1 (board stalemated) (turn stalemated) (enPassantTarget stalemated)"
    by code_simp
  have c2': "isInCheck 1 (board stalemated) (turn stalemated) \<noteq> Some True"
    by code_simp
  have c3: "someLegalMove 1 (board (kingsOnlyAfterKd1 Playing None)) (turn (kingsOnlyAfterKd1 Playing None))
              (enPassantTarget (kingsOnlyAfterKd1 Playing None))"
    by code_simp
  have c3': "status (kingsOnlyState Waiting None) = Waiting"
    by code_simp
  have "status backRankMate = Checkmate \<and> winner backRankMate = Some (turn (gameOn backRankBoard Black Playing))"
    using terminal_detection[OF s1, THEN conjunct2, THEN conjunct1, THEN mp, OF c1] c1'
    by blast
  then have "status backRankMate = Checkmate \<and> winner backRankMate = Some Black"
    using c1' by (simp only:)
  moreover have "status stalemated = Stalemate \<and> winner stalemated = None"
    using terminal_detection[OF s2, THEN conjunct2, THEN conjunct1, THEN mp, OF c2] c2'
    by blast
  moreover have "winner (kingsOnlyAfterKd1 Playing None) = None \<and> status (kingsOnlyAfterKd1 Playing None) =
      (if status (kingsOnlyState Waiting None) = Waiting \<or> status (kingsOnlyState Waiting None) = Playing
       then Playing else status (kingsOnlyState Waiting None))"
    using terminal_detection[OF s3, THEN conjunct2, THEN conjunct2, THEN conjunct1, THEN mp, OF c3] .
  then have "status (kingsOnlyAfterKd1 Playing None) = Playing \<and> winner (kingsOnlyAfterKd1 Playing None) = None"
    using c3' by (simp only: simp_thms if_True)
  ultimately show ?thesis
    using s1 s2 s3 by (simp only: simp_thms)
qed

text \<open>
  The claim as the specification states it (with a legal move left, the status is
  playing) fails on a state whose status is a terminal one: the move is accepted, black
  has a legal move, and the status is still draw.
\<close>

theorem status_not_playing_after_move:
  "makeMove 1 (kingsOnlyState Draw None) (pos 7 4) (pos 7 3) None
     = Some (Some (kingsOnlyAfterKd1 Draw None))
   \<and> someLegalMove 1 (board (kingsOnlyAfterKd1 Draw None)) (turn (kingsOnlyAfterKd1 Draw None))
        (enPassantTarget (kingsOnlyAfterKd1 Draw None))
   \<and> status (kingsOnlyAfterKd1 Draw None) = Draw
   \<and> status (kingsOnlyAfterKd1 Draw None) \<noteq> Playing"
  by code_simp

section \<open>Castling\<close>

lemma at_setAt:
  assumes "wf_board b" "0 \<le> r" "r < 8" "0 \<le> c" "c < 8" "0 \<le> r'" "0 \<le> c'"
  shows "at (setAt b r c v) r' c' = (if r' = r \<and> c' = c then v else at b r' c')"
  using at_setAt_same[of b r c v] at_setAt_other[of r c r' c' b v] assms by auto

lemma getRawMoves_king:
  assumes "getPiece b p = Some pc" "ptype pc = King" "getRawMoves n b p ept = Some ms"
  shows "\<exists>cs. castlingMoves (\<lambda>sq. isSquareAttacked n b sq (color pc)) b p pc = Some cs
              \<and> ms = stepMoves b p pc kingOffsets @ cs"
  using assms by (auto simp: getRawMoves.simps split: bind_splits)

lemma stepMoves_mem:
  assumes "m \<in> set (stepMoves b p pc ds)"
  shows "\<exists>d \<in> set ds. m = pos (row p + fst d) (col p + snd d) \<and> isValidPosition m"
proof -
  from assms obtain d where d: "d \<in> set ds"
    and m: "m \<in> set (case d of (dr, dc) \<Rightarrow>
                 let newPos = pos (row p + dr) (col p + dc)
                 in if isValidPosition newPos
                    then (case getPiece b newPos of
                            None \<Rightarrow> [newPos]
                          | Some target \<Rightarrow> if color target \<noteq> color pc then [newPos] else [])
                    else [])"
    unfolding stepMoves_def by auto
  from m have "m = pos (row p + fst d) (col p + snd d) \<and> isValidPosition m"
    by (cases d) (auto simp: Let_def split: if_splits option.splits)
  with d show ?thesis by blast
qed

lemma kingOffsets_small: "d \<in> set kingOffsets \<Longrightarrow> \<bar>fst d\<bar> \<le> 1 \<and> \<bar>snd d\<bar> \<le> 1"
  by (auto simp: kingOffsets_def)

lemma stepMoves_king_col:
  assumes "m \<in> set (stepMoves b p pc kingOffsets)"
  shows "\<bar>col m - col p\<bar> \<le> 1"
proof -
  from stepMoves_mem[OF assms] obtain d where "d \<in> set kingOffsets"
    "m = pos (row p + fst d) (col p + snd d)" by blast
  with kingOffsets_small[of d] show ?thesis by (simp add: pos_def)
qed

lemma anyM3_False:
  "anyM att [x, y, z] = Some False \<longleftrightarrow> att x = Some False \<and> att y = Some False \<and> att z = Some False"
  by (subst anyM_False_iff) simp

lemma castlingMoves_kingside:
  assumes "castlingMoves att b p pc = Some cs"
  shows "pos (row p) 6 \<in> set cs \<longleftrightarrow>
           \<not> hasMoved pc
           \<and> (\<exists>rk. getPiece b (pos (row p) 7) = Some rk \<and> ptype rk = Rook \<and> \<not> hasMoved rk)
           \<and> getPiece b (pos (row p) 5) = None \<and> getPiece b (pos (row p) 6) = None
           \<and> att (pos (row p) 4) = Some False \<and> att (pos (row p) 5) = Some False
           \<and> att (pos (row p) 6) = Some False"
proof -
  define ks where "ks = (case getPiece b (pos (row p) 7) of
                 Some kingsideRook \<Rightarrow>
                   if ptype kingsideRook = Rook \<and> \<not> hasMoved kingsideRook then
                     if getPiece b (pos (row p) 5) = None \<and> getPiece b (pos (row p) 6) = None then do {
                       a \<leftarrow> anyM att [pos (row p) 4, pos (row p) 5, pos (row p) 6];
                       Some (if \<not> a then [pos (row p) 6] else [])
                     } else Some []
                   else Some []
               | None \<Rightarrow> Some [])"
  define qs where "qs = (case getPiece b (pos (row p) 0) of
                 Some queensideRook \<Rightarrow>
                   if ptype queensideRook = Rook \<and> \<not> hasMoved queensideRook then
                     if getPiece b (pos (row p) 1) = None \<and> getPiece b (pos (row p) 2) = None
                        \<and> getPiece b (pos (row p) 3) = None then do {
                       a \<leftarrow> anyM att [pos (row p) 4, pos (row p) 3, pos (row p) 2];
                       Some (if \<not> a then [pos (row p) 2] else [])
                     } else Some []
                   else Some []
               | None \<Rightarrow> Some [])"
  have cm: "castlingMoves att b p pc
              = (if \<not> hasMoved pc then do { k \<leftarrow> ks; q \<leftarrow> qs; Some (k @ q) } else Some [])"
    by (simp add: castlingMoves_def ks_def qs_def)
  have q: "pos (row p) 6 \<notin> set q" if "qs = Some q" for q
    using that unfolding qs_def
    by (auto simp: pos_def split: option.splits if_splits bind_splits)
  have k: "pos (row p) 6 \<in> set k \<longleftrightarrow>
           (\<exists>rk. getPiece b (pos (row p) 7) = Some rk \<and> ptype rk = Rook \<and> \<not> hasMoved rk)
           \<and> getPiece b (pos (row p) 5) = None \<and> getPiece b (pos (row p) 6) = None
           \<and> anyM att [pos (row p) 4, pos (row p) 5, pos (row p) 6] = Some False"
    if "ks = Some k" for k
    using that unfolding ks_def
    by (auto split: option.splits if_splits bind_splits)
  show ?thesis
  proof (cases "hasMoved pc")
    case True
    with assms cm show ?thesis by simp
  next
    case False
    with assms cm obtain k q' where kq: "ks = Some k" "qs = Some q'" "cs = k @ q'"
      by (auto split: bind_splits)
    from kq(3) q[OF kq(2)] have "pos (row p) 6 \<in> set cs \<longleftrightarrow> pos (row p) 6 \<in> set k"
      by simp
    with k[OF kq(1)] False anyM3_False[of att "pos (row p) 4" "pos (row p) 5" "pos (row p) 6"]
    show ?thesis by blast
  qed
qed

lemma castlingMoves_queenside:
  assumes "castlingMoves att b p pc = Some cs"
  shows "pos (row p) 2 \<in> set cs \<longleftrightarrow>
           \<not> hasMoved pc
           \<and> (\<exists>rk. getPiece b (pos (row p) 0) = Some rk \<and> ptype rk = Rook \<and> \<not> hasMoved rk)
           \<and> getPiece b (pos (row p) 1) = None \<and> getPiece b (pos (row p) 2) = None
           \<and> getPiece b (pos (row p) 3) = None
           \<and> att (pos (row p) 4) = Some False \<and> att (pos (row p) 3) = Some False
           \<and> att (pos (row p) 2) = Some False"
proof -
  define ks where "ks = (case getPiece b (pos (row p) 7) of
                 Some kingsideRook \<Rightarrow>
                   if ptype kingsideRook = Rook \<and> \<not> hasMoved kingsideRook then
                     if getPiece b (pos (row p) 5) = None \<and> getPiece b (pos (row p) 6) = None then do {
                       a \<leftarrow> anyM att [pos (row p) 4, pos (row p) 5, pos (row p) 6];
                       Some (if \<not> a then [pos (row p) 6] else [])
                     } else Some []
                   else Some []
               | None \<Rightarrow> Some [])"
  define qs where "qs = (case getPiece b (pos (row p) 0) of
                 Some queensideRook \<Rightarrow>
                   if ptype queensideRook = Rook \<and> \<not> hasMoved queensideRook then
                     if getPiece b (pos (row p) 1) = None \<and> getPiece b (pos (row p) 2) = None
                        \<and> getPiece b (pos (row p) 3) = None then do {
                       a \<leftarrow> anyM att [pos (row p) 4, pos (row p) 3, pos (row p) 2];
                       Some (if \<not> a then [pos (row p) 2] else [])
                     } else Some []
                   else Some []
               | None \<Rightarrow> Some [])"
  have cm: "castlingMoves att b p pc
              = (if \<not> hasMoved pc then do { k \<leftarrow> ks; q \<leftarrow> qs; Some (k @ q) } else Some [])"
    by (simp add: castlingMoves_def ks_def qs_def)
  have k: "pos (row p) 2 \<notin> set k" if "ks = Some k" for k
    using that unfolding ks_def
    by (auto simp: pos_def split: option.splits if_splits bind_splits)
  have q: "pos (row p) 2 \<in> set q \<longleftrightarrow>
           (\<exists>rk. getPiece b (pos (row p) 0) = Some rk \<and> ptype rk = Rook \<and> \<not> hasMoved rk)
           \<and> getPiece b (pos (row p) 1) = None \<and> getPiece b (pos (row p) 2) = None
           \<and> getPiece b (pos (row p) 3) = None
           \<and> anyM att [pos (row p) 4, pos (row p) 3, pos (row p) 2] = Some False"
    if "qs = Some q" for q
    using that unfolding qs_def
    by (auto split: option.splits if_splits bind_splits)
  show ?thesis
  proof (cases "hasMoved pc")
    case True
    with assms cm show ?thesis by simp
  next
    case False
    with assms cm obtain k' q' where kq: "ks = Some k'" "qs = Some q'" "cs = k' @ q'"
      by (auto split: bind_splits)
    from kq(3) k[OF kq(1)] have "pos (row p) 2 \<in> set cs \<longleftrightarrow> pos (row p) 2 \<in> set q'"
      by simp
    with q[OF kq(2)] False anyM3_False[of att "pos (row p) 4" "pos (row p) 3" "pos (row p) 2"]
    show ?thesis by blast
  qed
qed

section \<open>A rook of the other colour next to the king's way attacks it\<close>

lemma slide_first:
  assumes "isValidPosition (pos r c)" "getPiece b (pos r c) = None" "dr \<noteq> 0 \<or> dc \<noteq> 0"
  shows "pos r c \<in> set (slide b r c dr dc clr)"
  using assms by (subst slide.simps) auto

lemma slide_second:
  assumes "isValidPosition (pos r c)" "getPiece b (pos r c) = None" "dr \<noteq> 0 \<or> dc \<noteq> 0"
    and "isValidPosition (pos (r + dr) (c + dc))" "getPiece b (pos (r + dr) (c + dc)) = None"
  shows "pos (r + dr) (c + dc) \<in> set (slide b r c dr dc clr)"
  using assms slide_first[of "r + dr" "c + dc" b dr dc clr] by (subst slide.simps) auto

lemma getRawMoves_rook:
  "getPiece b p = Some rk \<Longrightarrow> ptype rk = Rook \<Longrightarrow> getRawMoves n b p ept = Some (slidingMoves b p rk rookDirs)"
  by (simp add: getRawMoves.simps)

lemma color_cases: "c \<noteq> d \<Longrightarrow> c = opposite d"
  by (cases c; cases d) (auto simp: opposite_def)

lemma isSquareAttacked_False_D:
  assumes "isSquareAttacked n b sq d = Some False"
    and "getPiece b q = Some pc" "color pc = opposite d"
  shows "\<exists>n' ms. n = Suc n' \<and> getRawMoves n' b q None = Some ms \<and> sq \<notin> set ms"
proof (cases n)
  case 0
  with assms(1) show ?thesis by (simp add: isSquareAttacked.simps)
next
  case (Suc n')
  have v: "isValidPosition q" by (rule getPiece_Some_valid[OF assms(2)])
  then have "q \<in> set allSquares" by (simp add: set_allSquares)
  moreover from assms(1) Suc have "anyM (\<lambda>sq'. case at b (row sq') (col sq') of
                  None \<Rightarrow> Some False
                | Some pc \<Rightarrow>
                    if color pc = opposite d then do {
                      ms \<leftarrow> getRawMoves n' b sq' None;
                      Some (list_ex (\<lambda>m. samePos m sq) ms)
                    } else Some False) allSquares = Some False"
    by (simp add: isSquareAttacked.simps)
  ultimately have "(case at b (row q) (col q) of
                  None \<Rightarrow> Some False
                | Some pc \<Rightarrow>
                    if color pc = opposite d then do {
                      ms \<leftarrow> getRawMoves n' b q None;
                      Some (list_ex (\<lambda>m. samePos m sq) ms)
                    } else Some False) = Some False"
    unfolding anyM_False_iff by blast
  with assms(2,3) v Suc show ?thesis
    by (auto simp: getPiece_at list_ex_samePos split: bind_splits)
qed

lemma enemy_rook_kingside:
  assumes rk: "getPiece b (pos r 7) = Some rk" "ptype rk = Rook" "color rk \<noteq> d"
    and e: "getPiece b (pos r 6) = None"
    and a: "isSquareAttacked n b (pos r 6) d = Some False"
  shows False
proof -
  from getPiece_Some_valid[OF rk(1)] have v: "isValidPosition (pos r 6)"
    by (simp add: isValidPosition_def pos_def)
  from isSquareAttacked_False_D[OF a rk(1) color_cases[OF rk(3)]] getRawMoves_rook[OF rk(1,2)]
  have n: "pos r 6 \<notin> set (slidingMoves b (pos r 7) rk rookDirs)" by auto
  have "pos r 6 \<in> set (slide b r 6 0 (- 1) (color rk))"
    using v e by (intro slide_first) auto
  then have "pos r 6 \<in> set (slidingMoves b (pos r 7) rk rookDirs)"
    by (simp add: slidingMoves_def rookDirs_def addSlidingMoves_def pos_def)
  with n show False by simp
qed

lemma enemy_rook_queenside:
  assumes rk: "getPiece b (pos r 0) = Some rk" "ptype rk = Rook" "color rk \<noteq> d"
    and e: "getPiece b (pos r 1) = None" "getPiece b (pos r 2) = None"
    and a: "isSquareAttacked n b (pos r 2) d = Some False"
  shows False
proof -
  from getPiece_Some_valid[OF rk(1)] have v: "isValidPosition (pos r 1)" "isValidPosition (pos r 2)"
    by (simp_all add: isValidPosition_def pos_def)
  from isSquareAttacked_False_D[OF a rk(1) color_cases[OF rk(3)]] getRawMoves_rook[OF rk(1,2)]
  have n: "pos r 2 \<notin> set (slidingMoves b (pos r 0) rk rookDirs)" by auto
  have "pos (r + 0) (1 + 1) \<in> set (slide b r 1 0 1 (color rk))"
    using v e by (intro slide_second) auto
  then have "pos r 2 \<in> set (slidingMoves b (pos r 0) rk rookDirs)"
    by (simp add: slidingMoves_def rookDirs_def addSlidingMoves_def pos_def)
  with n show False by simp
qed

section \<open>The castling destinations among the raw moves\<close>

lemma castling_offered_kingside:
  assumes king: "getPiece b f = Some pc" "ptype pc = King" "col f = 4"
    and raw: "getRawMoves n b f ept = Some ms"
  shows "pos (row f) 6 \<in> set ms \<longleftrightarrow> castlingAllowed n b (row f) pc Kingside"
proof -
  from getRawMoves_king[OF king(1,2) raw] obtain cs where
    cs: "castlingMoves (\<lambda>sq. isSquareAttacked n b sq (color pc)) b f pc = Some cs"
    and ms: "ms = stepMoves b f pc kingOffsets @ cs" by blast
  have "pos (row f) 6 \<notin> set (stepMoves b f pc kingOffsets)"
    using stepMoves_king_col[of "pos (row f) 6" b f pc] king(3) by (auto simp: pos_def)
  with ms have 1: "pos (row f) 6 \<in> set ms \<longleftrightarrow> pos (row f) 6 \<in> set cs" by simp
  note 2 = castlingMoves_kingside[OF cs]
  show ?thesis
  proof
    assume "pos (row f) 6 \<in> set ms"
    with 1 2 obtain rk where c: "\<not> hasMoved pc"
      "getPiece b (pos (row f) 7) = Some rk" "ptype rk = Rook" "\<not> hasMoved rk"
      "getPiece b (pos (row f) 5) = None" "getPiece b (pos (row f) 6) = None"
      "isSquareAttacked n b (pos (row f) 4) (color pc) = Some False"
      "isSquareAttacked n b (pos (row f) 5) (color pc) = Some False"
      "isSquareAttacked n b (pos (row f) 6) (color pc) = Some False"
      by blast
    have "color rk = color pc"
      using enemy_rook_kingside[OF c(2,3) _ c(6) c(9)] by blast
    with c show "castlingAllowed n b (row f) pc Kingside"
      by (simp add: castlingAllowed_def rookCol_def betweenCols_def kingPath_def)
  next
    assume "castlingAllowed n b (row f) pc Kingside"
    then have "pos (row f) 6 \<in> set cs"
      unfolding 2
      by (auto simp: castlingAllowed_def rookCol_def betweenCols_def kingPath_def split: option.splits)
    with 1 show "pos (row f) 6 \<in> set ms" by simp
  qed
qed

lemma castling_offered_queenside:
  assumes king: "getPiece b f = Some pc" "ptype pc = King" "col f = 4"
    and raw: "getRawMoves n b f ept = Some ms"
  shows "pos (row f) 2 \<in> set ms \<longleftrightarrow> castlingAllowed n b (row f) pc Queenside"
proof -
  from getRawMoves_king[OF king(1,2) raw] obtain cs where
    cs: "castlingMoves (\<lambda>sq. isSquareAttacked n b sq (color pc)) b f pc = Some cs"
    and ms: "ms = stepMoves b f pc kingOffsets @ cs" by blast
  have "pos (row f) 2 \<notin> set (stepMoves b f pc kingOffsets)"
    using stepMoves_king_col[of "pos (row f) 2" b f pc] king(3) by (auto simp: pos_def)
  with ms have 1: "pos (row f) 2 \<in> set ms \<longleftrightarrow> pos (row f) 2 \<in> set cs" by simp
  note 2 = castlingMoves_queenside[OF cs]
  show ?thesis
  proof
    assume "pos (row f) 2 \<in> set ms"
    with 1 2 obtain rk where c: "\<not> hasMoved pc"
      "getPiece b (pos (row f) 0) = Some rk" "ptype rk = Rook" "\<not> hasMoved rk"
      "getPiece b (pos (row f) 1) = None" "getPiece b (pos (row f) 2) = None"
      "getPiece b (pos (row f) 3) = None"
      "isSquareAttacked n b (pos (row f) 4) (color pc) = Some False"
      "isSquareAttacked n b (pos (row f) 3) (color pc) = Some False"
      "isSquareAttacked n b (pos (row f) 2) (color pc) = Some False"
      by blast
    have "color rk = color pc"
      using enemy_rook_queenside[OF c(2,3) _ c(5,6) c(10)] by blast
    with c show "castlingAllowed n b (row f) pc Queenside"
      by (simp add: castlingAllowed_def rookCol_def betweenCols_def kingPath_def)
  next
    assume "castlingAllowed n b (row f) pc Queenside"
    then have "pos (row f) 2 \<in> set cs"
      unfolding 2
      by (auto simp: castlingAllowed_def rookCol_def betweenCols_def kingPath_def split: option.splits)
    with 1 show "pos (row f) 2 \<in> set ms" by simp
  qed
qed

lemma castling_offered:
  assumes "getPiece b f = Some pc" "ptype pc = King" "col f = 4"
    and "getRawMoves n b f ept = Some ms"
  shows "pos (row f) (kingDest side) \<in> set ms \<longleftrightarrow> castlingAllowed n b (row f) pc side"
  using castling_offered_kingside[OF assms] castling_offered_queenside[OF assms]
  by (cases side) (simp_all add: kingDest_def)

section \<open>King and rook after castling\<close>

lemma movedBoard_castling:
  assumes wf: "wf_board (board s)" and king: "ptype pc = King" "col f = 4" "isValidPosition f"
    and rk: "getPiece (board s) (pos (row f) (rookCol side)) = Some rk"
  shows "getPiece (movedBoard s pc f (pos (row f) (kingDest side)) p) (pos (row f) (kingDest side))
           = Some (pc\<lparr>hasMoved := True\<rparr>)
       \<and> getPiece (movedBoard s pc f (pos (row f) (kingDest side)) p) (pos (row f) (rookDest side))
           = Some (rk\<lparr>hasMoved := True\<rparr>)
       \<and> getPiece (movedBoard s pc f (pos (row f) (kingDest side)) p) f = None
       \<and> getPiece (movedBoard s pc f (pos (row f) (kingDest side)) p) (pos (row f) (rookCol side)) = None"
proof -
  from king(3) have r: "0 \<le> row f" "row f < 8" by (simp_all add: isValidPosition_def)
  from rk have a: "at (board s) (row f) (rookCol side) = Some rk"
    by (simp add: getPiece_def pos_def split: if_splits)
  show ?thesis
  proof (cases side)
    case Kingside
    with a have a7: "at (board s) (row f) 7 = Some rk" by (simp add: rookCol_def)
    have mb: "movedBoard s pc f (pos (row f) 6) p =
        setAt (setAt (setAt (setAt (board s) (row f) 5 (Some (rk\<lparr>hasMoved := True\<rparr>))) (row f) 7 None)
                 (row f) 6 (Some (pc\<lparr>hasMoved := True\<rparr>))) (row f) 4 None"
      using king(1,2) a7
      by (simp add: movedBoard_def castledBoard_def isCastling_def isEnPassant_def isPromotion_def
          Let_def cloneBoard_id pos_def)
    show ?thesis
      unfolding Kingside kingDest_def rookDest_def rookCol_def CastlingSide.case mb
      using r wf king(2)
      by (simp add: getPiece_def isValidPosition_def pos_def at_setAt wf_setAt)
  next
    case Queenside
    with a have a0: "at (board s) (row f) 0 = Some rk" by (simp add: rookCol_def)
    have mb: "movedBoard s pc f (pos (row f) 2) p =
        setAt (setAt (setAt (setAt (board s) (row f) 3 (Some (rk\<lparr>hasMoved := True\<rparr>))) (row f) 0 None)
                 (row f) 2 (Some (pc\<lparr>hasMoved := True\<rparr>))) (row f) 4 None"
      using king(1,2) a0
      by (simp add: movedBoard_def castledBoard_def isCastling_def isEnPassant_def isPromotion_def
          Let_def cloneBoard_id pos_def)
    show ?thesis
      unfolding Queenside kingDest_def rookDest_def rookCol_def CastlingSide.case mb
      using r wf king(2)
      by (simp add: getPiece_def isValidPosition_def pos_def at_setAt wf_setAt)
  qed
qed

lemma moveRecord_castling:
  assumes "ptype pc = King" "col f = 4"
  shows "castling (moveRecord s pc f (pos (row f) (kingDest side)) p) = Some side"
  using assms by (cases side) (simp_all add: moveRecord_def Let_def isCastling_def kingDest_def pos_def)

lemma castlingAllowed_rook:
  assumes "castlingAllowed n b r king side"
  shows "\<exists>rk. getPiece b (pos r (rookCol side)) = Some rk \<and> ptype rk = Rook \<and> color rk = color king"
  using assms by (auto simp: castlingAllowed_def split: option.splits)

text \<open>
  Where the move generation returns, castling is as the specification has it. An unmoved
  king stands on column 4 in every position of a game, and the castling branch reads the
  columns 4, 5, 6 and 4, 3, 2 of its row. For a king on column 4, whenever
  \<^verbatim>\<open>getRawMoves\<close> returns, the castling destination of a side is among the moves exactly
  when castling is allowed on that side: king and own rook unmoved, the squares between
  them empty, and none of the squares on the king's way attacked. When \<^verbatim>\<open>makeMove\<close>
  accepts the move of the king to that destination, the new board has the king on the
  destination, the rook next to it on the other side, both marked as moved, and their
  old squares empty.
\<close>

lemma castling_when_generation_returns:
  assumes king: "getPiece (board s) f = Some pc" "ptype pc = King" "col f = 4"
  shows "(\<forall>ms. getRawMoves n (board s) f (enPassantTarget s) = Some ms \<longrightarrow>
            (pos (row f) (kingDest side) \<in> set ms \<longleftrightarrow> castlingAllowed n (board s) (row f) pc side))
       \<and> (\<forall>s'. wf_board (board s) \<longrightarrow>
              makeMove n s f (pos (row f) (kingDest side)) p = Some (Some s') \<longrightarrow>
              (\<exists>rk. getPiece (board s) (pos (row f) (rookCol side)) = Some rk
                 \<and> ptype rk = Rook \<and> color rk = color pc
                 \<and> getPiece (board s') (pos (row f) (kingDest side)) = Some (pc\<lparr>hasMoved := True\<rparr>)
                 \<and> getPiece (board s') (pos (row f) (rookDest side)) = Some (rk\<lparr>hasMoved := True\<rparr>)
                 \<and> getPiece (board s') f = None
                 \<and> getPiece (board s') (pos (row f) (rookCol side)) = None
                 \<and> map_option castling (lastMove s') = Some (Some side)))"
proof (intro conjI allI impI)
  fix ms assume "getRawMoves n (board s) f (enPassantTarget s) = Some ms"
  from castling_offered[OF king this]
  show "pos (row f) (kingDest side) \<in> set ms \<longleftrightarrow> castlingAllowed n (board s) (row f) pc side" .
next
  fix s' assume wf: "wf_board (board s)"
    and acc: "makeMove n s f (pos (row f) (kingDest side)) p = Some (Some s')"
  from makeMove_fields(1)[OF acc] king(1)
  have b: "board s' = movedBoard s pc f (pos (row f) (kingDest side)) p"
    and l: "lastMove s' = Some (moveRecord s pc f (pos (row f) (kingDest side)) p)"
    by auto
  from acc obtain lm where lm: "getLegalMoves n (board s) f (enPassantTarget s) = Some lm"
    "pos (row f) (kingDest side) \<in> set lm"
    unfolding makeMove_Some_Some by blast
  from getLegalMoves_raw[OF lm(1)] obtain raw where
    raw: "getRawMoves n (board s) f (enPassantTarget s) = Some raw" "set lm \<subseteq> set raw" by blast
  with lm(2) castling_offered[OF king raw(1), of side]
  have "castlingAllowed n (board s) (row f) pc side" by blast
  from castlingAllowed_rook[OF this] obtain rk where
    rk: "getPiece (board s) (pos (row f) (rookCol side)) = Some rk" "ptype rk = Rook" "color rk = color pc"
    by blast
  from movedBoard_castling[OF wf king(2,3) getPiece_Some_valid[OF king(1)] rk(1), of p]
    moveRecord_castling[OF king(2,3), of s side p] rk
  show "\<exists>rk. getPiece (board s) (pos (row f) (rookCol side)) = Some rk
                 \<and> ptype rk = Rook \<and> color rk = color pc
                 \<and> getPiece (board s') (pos (row f) (kingDest side)) = Some (pc\<lparr>hasMoved := True\<rparr>)
                 \<and> getPiece (board s') (pos (row f) (rookDest side)) = Some (rk\<lparr>hasMoved := True\<rparr>)
                 \<and> getPiece (board s') f = None
                 \<and> getPiece (board s') (pos (row f) (rookCol side)) = None
                 \<and> map_option castling (lastMove s') = Some (Some side)"
    by (simp add: b l)
qed

lemma castling_on_castlingBoard:
  "getRawMoves 1 castlingBoard (pos 7 4) None
     = Some [pos 6 3, pos 6 4, pos 6 5, pos 7 3, pos 7 5, pos 7 6, pos 7 2]
   \<and> castlingAllowed 1 castlingBoard 7 \<lparr>ptype = King, color = White, hasMoved = False\<rparr> Kingside
   \<and> castlingAllowed 1 castlingBoard 7 \<lparr>ptype = King, color = White, hasMoved = False\<rparr> Queenside
   \<and> makeMove 1 (gameOn castlingBoard White Playing) (pos 7 4) (pos 7 6) None = Some (Some castledShort)
   \<and> getPiece (board castledShort) (pos 7 6) = Some \<lparr>ptype = King, color = White, hasMoved = True\<rparr>
   \<and> getPiece (board castledShort) (pos 7 5) = Some \<lparr>ptype = Rook, color = White, hasMoved = True\<rparr>
   \<and> getPiece (board castledShort) (pos 7 4) = None
   \<and> getPiece (board castledShort) (pos 7 7) = None"
proof -
  let ?s = "gameOn castlingBoard White Playing"
  let ?pc = "\<lparr>ptype = King, color = White, hasMoved = False\<rparr>"
  let ?ms = "[pos 6 3, pos 6 4, pos 6 5, pos 7 3, pos 7 5, pos 7 6, pos 7 2]"
  have g: "getPiece (board ?s) (pos 7 4) = Some ?pc" "ptype ?pc = King" "col (pos 7 4) = 4"
    by code_simp+
  have raw: "getRawMoves 1 (board ?s) (pos 7 4) (enPassantTarget ?s) = Some ?ms"
    by code_simp
  have e: "board ?s = castlingBoard" "enPassantTarget ?s = None" "row (pos 7 4) = 7"
    "kingDest Kingside = 6" "kingDest Queenside = 2" "rookCol Kingside = 7" "rookDest Kingside = 5"
    by (simp_all add: gameOn_def pos_def kingDest_def rookCol_def rookDest_def)
  have m: "pos 7 6 \<in> set ?ms" "pos 7 2 \<in> set ?ms" by simp_all
  have wf: "wf_board (board ?s)" by code_simp
  have acc: "makeMove 1 ?s (pos 7 4) (pos 7 6) None = Some (Some castledShort)"
    by code_simp
  have rk: "getPiece castlingBoard (pos 7 7) = Some \<lparr>ptype = Rook, color = White, hasMoved = False\<rparr>"
    by code_simp
  note th = castling_when_generation_returns[where s = ?s and f = "pos 7 4" and pc = ?pc and n = 1 and p = None, OF g]
  have k: "castlingAllowed 1 castlingBoard 7 ?pc Kingside"
    using th[where side = Kingside, THEN conjunct1, rule_format, OF raw] m(1)
    by (simp only: e)
  have q: "castlingAllowed 1 castlingBoard 7 ?pc Queenside"
    using th[where side = Queenside, THEN conjunct1, rule_format, OF raw] m(2)
    by (simp only: e)
  from th[where side = Kingside, THEN conjunct2, rule_format, OF wf] acc
  have "\<exists>rk. getPiece castlingBoard (pos 7 7) = Some rk
           \<and> ptype rk = Rook \<and> color rk = color ?pc
           \<and> getPiece (board castledShort) (pos 7 6) = Some (?pc\<lparr>hasMoved := True\<rparr>)
           \<and> getPiece (board castledShort) (pos 7 5) = Some (rk\<lparr>hasMoved := True\<rparr>)
           \<and> getPiece (board castledShort) (pos 7 4) = None
           \<and> getPiece (board castledShort) (pos 7 7) = None
           \<and> map_option castling (lastMove castledShort) = Some (Some Kingside)"
    by (simp only: e)
  with rk have "getPiece (board castledShort) (pos 7 6) = Some \<lparr>ptype = King, color = White, hasMoved = True\<rparr>
   \<and> getPiece (board castledShort) (pos 7 5) = Some \<lparr>ptype = Rook, color = White, hasMoved = True\<rparr>
   \<and> getPiece (board castledShort) (pos 7 4) = None
   \<and> getPiece (board castledShort) (pos 7 7) = None"
    by auto
  with raw k q acc show ?thesis by (simp only: e simp_thms)
qed

section \<open>The recursion between move generation and the attack test\<close>

lemma anyM_None_after:
  assumes "\<forall>y \<in> set pre. f y = Some False" "f x = None"
  shows "anyM f (pre @ x # post) = None"
  using assms by (induction pre) auto

lemma getRawMoves_not_king:
  assumes "getPiece b p = Some pc" "ptype pc \<noteq> King"
  shows "getRawMoves n b p ept = getRawMoves 0 b p ept"
  using assms by (cases "ptype pc") (simp_all add: getRawMoves.simps)

lemma isSquareAttacked_stuck:
  assumes i: "i < length allSquares"
    and before: "noEarlierAttacker b i p d"
    and attacker: "getPiece b (allSquares ! i) = Some pc" "color pc = opposite d"
    and stuck: "getRawMoves n b (allSquares ! i) None = None"
  shows "isSquareAttacked (Suc n) b p d = None"
proof -
  let ?f = "\<lambda>sq. case at b (row sq) (col sq) of
                  None \<Rightarrow> Some False
                | Some pc \<Rightarrow>
                    if color pc = opposite d then do {
                      ms \<leftarrow> getRawMoves n b sq None;
                      Some (list_ex (\<lambda>m. samePos m p) ms)
                    } else Some False"
  have split: "allSquares = take i allSquares @ allSquares ! i # drop (Suc i) allSquares"
    using i by (rule id_take_nth_drop)
  have 1: "?f y = Some False" if y: "y \<in> set (take i allSquares)" for y
  proof -
    from y have "y \<in> set allSquares" by (rule in_set_takeD)
    then have v: "isValidPosition y" by (simp add: set_allSquares)
    from before y have e: "case at b (row y) (col y) of
                     None \<Rightarrow> True
                   | Some pc \<Rightarrow>
                       if color pc = opposite d
                       then ptype pc \<noteq> King \<and>
                            (case getRawMoves 0 b y None of
                               Some ms \<Rightarrow> \<not> list_ex (\<lambda>m. samePos m p) ms
                             | None \<Rightarrow> False)
                       else True"
      unfolding noEarlierAttacker_def list_all_iff by blast
    show ?thesis
    proof (cases "at b (row y) (col y)")
      case None
      then show ?thesis by simp
    next
      case (Some q)
      show ?thesis
      proof (cases "color q = opposite d")
        case False
        with Some show ?thesis by simp
      next
        case True
        with e Some have nk: "ptype q \<noteq> King"
          and r: "case getRawMoves 0 b y None of
                               Some ms \<Rightarrow> \<not> list_ex (\<lambda>m. samePos m p) ms
                             | None \<Rightarrow> False"
          by simp_all
        from Some v have "getPiece b y = Some q" by (simp add: getPiece_at)
        from getRawMoves_not_king[OF this nk] have "getRawMoves n b y None = getRawMoves 0 b y None" .
        with r Some True show ?thesis by (auto split: option.splits)
      qed
    qed
  qed
  from attacker(1) have "at b (row (allSquares ! i)) (col (allSquares ! i)) = Some pc"
    by (simp add: getPiece_def split: if_splits)
  with attacker(2) stuck have 2: "?f (allSquares ! i) = None" by simp
  have "anyM ?f (take i allSquares @ allSquares ! i # drop (Suc i) allSquares) = None"
    using 1 2 by (intro anyM_None_after) blast+
  with split have "anyM ?f allSquares = None" by simp
  then show ?thesis by (simp add: isSquareAttacked.simps)
qed

lemma castling_stuck:
  assumes "shortCastleOpen b r c"
    and "isSquareAttacked n b (pos r 4) c = None"
  shows "getRawMoves n b (pos r 4) ept = None"
proof -
  from assms(1) obtain rk where k: "getPiece b (pos r 4) = Some \<lparr>ptype = King, color = c, hasMoved = False\<rparr>"
    and rk: "getPiece b (pos r 7) = Some rk" "ptype rk = Rook" "\<not> hasMoved rk"
    and e: "getPiece b (pos r 5) = None" "getPiece b (pos r 6) = None"
    by (auto simp: shortCastleOpen_def split: option.splits)
  have r: "row (pos r 4) = r" by (simp add: pos_def)
  show ?thesis
    using k rk e assms(2) by (simp add: getRawMoves.simps castlingMoves_def r)
qed

lemma square_index: "allSquares ! 4 = pos 0 4" "allSquares ! 60 = pos 7 4"
  "4 < length allSquares" "60 < length allSquares"
  by code_simp+

lemma castling_recursion:
  assumes "bothMayCastleShort b"
  shows "isSquareAttacked n b (pos 7 4) White = None \<and> isSquareAttacked n b (pos 0 4) Black = None"
proof (induction n)
  case 0
  show ?case by (simp add: isSquareAttacked.simps)
next
  case (Suc n)
  from assms have w: "shortCastleOpen b 7 White" and bl: "shortCastleOpen b 0 Black"
    and nw: "noEarlierAttacker b 4 (pos 7 4) White" and nb: "noEarlierAttacker b 60 (pos 0 4) Black"
    by (simp_all add: bothMayCastleShort_def)
  from w have wk: "getPiece b (allSquares ! 60) = Some \<lparr>ptype = King, color = White, hasMoved = False\<rparr>"
    by (simp add: shortCastleOpen_def square_index)
  from bl have bk: "getPiece b (allSquares ! 4) = Some \<lparr>ptype = King, color = Black, hasMoved = False\<rparr>"
    by (simp add: shortCastleOpen_def square_index)
  from Suc castling_stuck[OF w, of n None] have rw: "getRawMoves n b (allSquares ! 60) None = None"
    by (simp add: square_index)
  from Suc castling_stuck[OF bl, of n None] have rb: "getRawMoves n b (allSquares ! 4) None = None"
    by (simp add: square_index)
  have "isSquareAttacked (Suc n) b (pos 7 4) White = None"
    by (rule isSquareAttacked_stuck[OF square_index(3) nw bk _ rb]) (simp add: opposite_def)
  moreover have "isSquareAttacked (Suc n) b (pos 0 4) Black = None"
    by (rule isSquareAttacked_stuck[OF square_index(4) nb wk _ rw]) (simp add: opposite_def)
  ultimately show ?case by blast
qed

lemma never_returns_when_both_may_castle:
  assumes "bothMayCastleShort b"
  shows "isSquareAttacked n b (pos 7 4) White = None
       \<and> isSquareAttacked n b (pos 0 4) Black = None
       \<and> isInCheck n b White = None \<and> isInCheck n b Black = None
       \<and> getRawMoves n b (pos 7 4) ept = None \<and> getRawMoves n b (pos 0 4) ept = None
       \<and> getLegalMoves n b (pos 7 4) ept = None \<and> getLegalMoves n b (pos 0 4) ept = None"
proof -
  note a = castling_recursion[OF assms, of n]
  from assms have w: "shortCastleOpen b 7 White" and bl: "shortCastleOpen b 0 Black"
    and f: "findKing b White = Some (pos 7 4)" "findKing b Black = Some (pos 0 4)"
    by (simp_all add: bothMayCastleShort_def)
  from a castling_stuck[OF w, of n ept] castling_stuck[OF bl, of n ept]
  have r: "getRawMoves n b (pos 7 4) ept = None" "getRawMoves n b (pos 0 4) ept = None"
    by simp_all
  from w bl have "getPiece b (pos 7 4) \<noteq> None" "getPiece b (pos 0 4) \<noteq> None"
    by (simp_all add: shortCastleOpen_def)
  with r have l: "getLegalMoves n b (pos 7 4) ept = None" "getLegalMoves n b (pos 0 4) ept = None"
    by (auto simp: getLegalMoves_def)
  from a f have c: "isInCheck n b White = None" "isInCheck n b Black = None"
    by (simp_all add: isInCheck_def)
  from a r l c show ?thesis by blast
qed

lemma opening_facts:
  "getPiece openingBoard (pos 0 5) = Some \<lparr>ptype = Bishop, color = Black, hasMoved = False\<rparr>"
  "getRawMoves 0 openingBoard (pos 0 5) None = Some [pos 1 4, pos 2 3, pos 3 2, pos 4 1, pos 5 0]"
  "bothMayCastleShort (testBoard openingBoard (pos 0 5)
      \<lparr>ptype = Bishop, color = Black, hasMoved = False\<rparr> None (pos 1 4))"
  by code_simp+

lemma opening_reached:
  "map_option (map_option (\<lambda>s. (board s, turn s, status s, enPassantTarget s)))
      (playMoves 2 (createInitialGameState ''10+0'') openingMoves)
     = Some (Some (openingBoard, Black, Playing, None))"
  by code_simp

lemma bishop_moves_never_return:
  "getLegalMoves n openingBoard (pos 0 5) None = None"
proof -
  let ?bishop = "\<lparr>ptype = Bishop, color = Black, hasMoved = False\<rparr>"
  have "getRawMoves n openingBoard (pos 0 5) None = Some [pos 1 4, pos 2 3, pos 3 2, pos 4 1, pos 5 0]"
    using getRawMoves_not_king[OF opening_facts(1), of n None] opening_facts(2) by simp
  moreover have "isInCheck n (testBoard openingBoard (pos 0 5) ?bishop None (pos 1 4)) Black = None"
    using never_returns_when_both_may_castle[OF opening_facts(3), of n None] by blast
  ultimately show ?thesis
    using opening_facts(1) by (simp add: getLegalMoves_def)
qed

lemma bishop_move_not_applied:
  assumes "board s = openingBoard" "turn s = Black" "enPassantTarget s = None"
  shows "makeMove n s (pos 0 5) toP promo = None"
  using assms opening_facts(1) bishop_moves_never_return[of n]
  by (simp add: makeMove_def)

text \<open>
  Claim C3 against the code. \<^verbatim>\<open>isSquareAttacked\<close> calls \<^verbatim>\<open>getRawMoves\<close> for every piece
  of the other colour, and \<^verbatim>\<open>getRawMoves\<close> enters the castling branch for a king and
  calls \<^verbatim>\<open>isSquareAttacked\<close> there. On a board where both sides may castle short, the
  test whether e1 is attacked asks for the moves of the black king, which asks whether e8
  is attacked, which asks for the moves of the white king, which asks whether e1 is
  attacked: no depth budget is enough, and the attack test, \<^verbatim>\<open>isInCheck\<close> and the move
  lists of the kings do not return. A game reaches such a board: after 1. e4 e5 2. Nf3
  Nf6 3. Bc4 the scratch board of the first move of black's king's bishop is one, so
  \<^verbatim>\<open>getLegalMoves\<close> for that bishop does not return and no move of it is ever applied.
\<close>

theorem attack_test_never_returns:
  "(bothMayCastleShort b \<longrightarrow>
      isSquareAttacked n b (pos 7 4) White = None \<and> isSquareAttacked n b (pos 0 4) Black = None
      \<and> isInCheck n b White = None \<and> isInCheck n b Black = None
      \<and> getLegalMoves n b (pos 7 4) ept = None \<and> getLegalMoves n b (pos 0 4) ept = None)
   \<and> bothMayCastleShort bothCastleBoard
   \<and> map_option (map_option (\<lambda>s. (board s, turn s, status s, enPassantTarget s)))
        (playMoves 2 (createInitialGameState ''10+0'') openingMoves)
       = Some (Some (openingBoard, Black, Playing, None))
   \<and> getLegalMoves n openingBoard (pos 0 5) None = None
   \<and> (board s = openingBoard \<and> turn s = Black \<and> enPassantTarget s = None \<longrightarrow>
        makeMove n s (pos 0 5) (pos 3 2) None = None)"
proof -
  have 1: "bothMayCastleShort bothCastleBoard" by code_simp
  from never_returns_when_both_may_castle[of b n ept] 1 opening_reached
    bishop_moves_never_return[of n] bishop_move_not_applied[of s n "pos 3 2" None]
  show ?thesis by blast
qed

theorem attack_test_never_returns_witness:
  "isSquareAttacked 1000 bothCastleBoard (pos 7 4) White = None
   \<and> isInCheck 1000 bothCastleBoard White = None
   \<and> getLegalMoves 1000 bothCastleBoard (pos 7 4) None = None
   \<and> makeMove 1000 (gameOn openingBoard Black Playing) (pos 0 5) (pos 3 2) None = None"
proof -
  have e: "board (gameOn openingBoard Black Playing) = openingBoard
         \<and> turn (gameOn openingBoard Black Playing) = Black
         \<and> enPassantTarget (gameOn openingBoard Black Playing) = None"
    by (simp add: gameOn_def)
  from attack_test_never_returns[of bothCastleBoard 1000 None "gameOn openingBoard Black Playing"] e
  show ?thesis by blast
qed

section \<open>The initial state\<close>

lemma createInitialBoard_standard: "createInitialBoard = standardBoard"
  by code_simp

lemma splitOn_hd: "splitOn sep s \<noteq> [] \<and> hd (splitOn sep s) = takeWhile (\<lambda>c. c \<noteq> sep) s"
  by (induction s) (auto split: list.splits)

lemma isDigit_not_plus: "isDigit c \<Longrightarrow> c \<noteq> CHR ''+''"
  by (auto simp: isDigit_def digits_def)

lemma minutes_field:
  assumes "list_all isDigit ms"
  shows "hd (splitOn (CHR ''+'') (ms @ ''+'' @ inc)) = ms"
proof -
  have "\<forall>c \<in> set ms. c \<noteq> CHR ''+''"
    using assms isDigit_not_plus by (auto simp: list_all_iff)
  then have "takeWhile (\<lambda>c. c \<noteq> CHR ''+'') (ms @ ''+'' @ inc) = ms"
    by simp
  then show ?thesis by (simp add: splitOn_hd)
qed

lemma createInitialGameState_eq:
  "createInitialGameState tc =
     freshState (jsTimes (if falsy (Number (hd (splitOn (CHR ''+'') tc))) then Finite 10 0
                          else Number (hd (splitOn (CHR ''+'') tc))) (Finite 60 0))"
proof -
  have "splitOn (CHR ''+'') tc \<noteq> []" by (simp add: splitOn_hd)
  then have "hd (map Number (splitOn (CHR ''+'') tc)) = Number (hd (splitOn (CHR ''+'') tc))"
    by (simp add: hd_map)
  then show ?thesis
    by (simp add: createInitialGameState_def freshState_def createInitialBoard_standard Let_def)
qed

section \<open>Numbers that are computed exactly\<close>

lemma bitLength_bounds: "0 < n \<Longrightarrow> 2 ^ (bitLength n - 1) \<le> n \<and> n < 2 ^ bitLength n"
proof (induction n rule: bitLength.induct)
  case (1 n)
  show ?case
  proof (cases "n = 1")
    case True
    then show ?thesis by (simp add: bitLength.simps[of 1] bitLength.simps[of 0])
  next
    case False
    with "1.prems" have h: "0 < n div 2" by simp
    with "1.IH" "1.prems" have ih: "2 ^ (bitLength (n div 2) - 1) \<le> n div 2" "n div 2 < 2 ^ bitLength (n div 2)"
      by simp_all
    have pos: "0 < bitLength (n div 2)" using h by (simp add: bitLength.simps[of "n div 2"])
    have b: "bitLength n = Suc (bitLength (n div 2))"
      using "1.prems" by (simp add: bitLength.simps[of n])
    from pos have e: "(2::int) ^ bitLength (n div 2) = 2 * 2 ^ (bitLength (n div 2) - 1)"
      by (cases "bitLength (n div 2)") simp_all
    from ih(1) have "2 * 2 ^ (bitLength (n div 2) - 1) \<le> n" by linarith
    moreover from ih(2) have "n < 2 * 2 ^ bitLength (n div 2)" by linarith
    ultimately show ?thesis by (simp add: b e)
  qed
qed

lemma bitLength_one: "bitLength 1 = 1"
  by (simp add: bitLength.simps[of 1] bitLength.simps[of 0])

lemma floorLog2_bounds:
  assumes "0 < n" "n < 2 ^ w"
  shows "- 1 \<le> floorLog2 n 1 \<and> floorLog2 n 1 \<le> int w - 1"
proof -
  from bitLength_bounds[OF assms(1)] assms(2) have "(2::int) ^ (bitLength n - 1) < 2 ^ w" by linarith
  moreover have "(bitLength n - 1 < w) = ((2::int) ^ (bitLength n - 1) < 2 ^ w)"
    by (rule power_strict_increasing_iff[symmetric]) simp
  ultimately have "bitLength n - 1 < w" by blast
  moreover have "0 < bitLength n" using assms(1) by (simp add: bitLength.simps[of n])
  ultimately show ?thesis
    by (auto simp: floorLog2_def Let_def bitLength_one)
qed

lemma lowestTerms_power: "lowestTerms (n * 2 ^ j) j = Finite n 0"
  by (induction j) simp_all

lemma roundHalfEven_multiple: "0 < D \<Longrightarrow> roundHalfEven (a * D) D = a"
  by (simp add: roundHalfEven_def)

text \<open>An integer of at most 53 binary digits, times a power of two, is a double.\<close>

lemma roundToDouble_exact:
  assumes n: "0 < n" "n < 2 ^ 53" and j: "j \<le> 900"
  shows "roundToDouble False (n * 2 ^ j) 1 = Finite (n * 2 ^ j) 0"
proof -
  define q where "q = n * 2 ^ j"
  have q0: "0 < q" using n(1) by (simp add: q_def)
  have "q < 2 ^ 53 * 2 ^ j" unfolding q_def using n(2) by simp
  then have qu: "q < 2 ^ (53 + j)" by (simp add: power_add)
  have "(2::int) ^ (53 + j) \<le> 2 ^ 1024" using j by (intro power_increasing) simp_all
  with qu have no: "\<not> (2::int) ^ 1024 \<le> q" by linarith
  define e where "e = floorLog2 q 1 - 52"
  from floorLog2_bounds[OF q0 qu] have e: "- 53 \<le> e" "e \<le> int j" by (simp_all add: e_def)
  then have m: "max (floorLog2 q 1 - 52) (- 1074) = e" by (simp add: e_def)
  consider "e < 0" | "e = 0" | "0 < e" by linarith
  then have "roundToDouble False q 1 = Finite q 0"
  proof cases
    case 1
    with q0 show ?thesis
      unfolding roundToDouble_def m Let_def
      by (simp add: roundHalfEven_multiple[of 1, simplified] lowestTerms_power)
  next
    case 2
    with q0 no show ?thesis
      unfolding roundToDouble_def m Let_def
      by (simp add: roundHalfEven_multiple[of 1, simplified])
  next
    case 3
    with e(2) obtain d where d: "j = d + nat e" by (metis le_add_diff_inverse2 nat_le_iff)
    have "q = (n * 2 ^ d) * 2 ^ nat e" by (simp add: q_def d power_add)
    then have r: "roundHalfEven q (2 ^ nat e) = n * 2 ^ d"
      using roundHalfEven_multiple[of "2 ^ nat e" "n * 2 ^ d"] by simp
    have "n * 2 ^ d * 2 ^ nat e = q" by (simp add: q_def d power_add)
    with 3 q0 no show ?thesis
      unfolding roundToDouble_def m Let_def by (simp add: r)
  qed
  then show ?thesis by (simp add: q_def)
qed

lemma times_60_exact:
  assumes "0 < a" "a * 15 < 2 ^ 53"
  shows "jsTimes (Finite a 0) (Finite 60 0) = Finite (a * 60) 0"
proof -
  have p: "0 < a * 15" using assms(1) by simp
  have e: "a * 15 * 2 ^ 2 = a * 60" by simp
  have "roundToDouble False (a * 60) 1 = Finite (a * 60) 0"
    using roundToDouble_exact[OF p assms(2), of 2] unfolding e by simp
  moreover have "\<bar>a * 60\<bar> = a * 60" "\<not> a * 60 < 0" using assms(1) by simp_all
  ultimately show ?thesis
    by (simp add: jsTimes_def)
qed

section \<open>Number on strings of digits\<close>

lemma isDigit_cases:
  assumes "isDigit c"
  shows "\<not> isWhiteSpace c" and "c \<noteq> CHR ''+''" and "c \<noteq> CHR ''-''" and "c \<noteq> CHR ''I''"
    and "c \<noteq> CHR ''x''" and "c \<noteq> CHR ''X''" and "c \<noteq> CHR ''o''" and "c \<noteq> CHR ''O''"
    and "c \<noteq> CHR ''b''" and "c \<noteq> CHR ''B''"
  using assms by (auto simp: isDigit_def digits_def isWhiteSpace_def)

lemma trim_digits:
  assumes "list_all isDigit ds"
  shows "trim ds = ds"
proof (cases "ds = []")
  case True
  then show ?thesis by (simp add: trim_def)
next
  case False
  with assms have "isDigit (hd ds)" "isDigit (last ds)" by (auto simp: list_all_iff)
  then have h: "\<not> isWhiteSpace (hd ds)" "\<not> isWhiteSpace (hd (rev ds))"
    using False by (simp_all add: isDigit_cases(1) hd_rev)
  from h(1) have 1: "dropWhile isWhiteSpace ds = ds" by (simp add: dropWhile_eq_self_iff)
  from h(2) have 2: "dropWhile isWhiteSpace (rev ds) = rev ds" by (simp add: dropWhile_eq_self_iff)
  show ?thesis by (simp add: trim_def 1 2)
qed

lemma nonDecimalLiteral_digits:
  assumes "list_all isDigit ds"
  shows "nonDecimalLiteral ds = None"
proof (cases ds)
  case Nil
  then show ?thesis by (simp add: nonDecimalLiteral_def)
next
  case (Cons c0 r)
  show ?thesis
  proof (cases r)
    case Nil
    with Cons show ?thesis by (simp add: nonDecimalLiteral_def)
  next
    case (Cons c1 r')
    with assms \<open>ds = c0 # r\<close> have "isDigit c1" by simp
    from isDigit_cases(5-10)[OF this] Cons \<open>ds = c0 # r\<close> show ?thesis
      by (simp add: nonDecimalLiteral_def)
  qed
qed

lemma unsignedDecimal_digits:
  assumes "ds \<noteq> []" "list_all isDigit ds"
  shows "unsignedDecimal False ds = roundToDouble False (decimalValue ds) 1"
proof -
  from assms have "isDigit (hd ds)" by (cases ds) simp_all
  then have "hd ds \<noteq> CHR ''I''" by (rule isDigit_cases(4))
  then have ni: "ds \<noteq> ''Infinity''" by auto
  from assms(2) have t: "takeWhile isDigit ds = ds" "dropWhile isDigit ds = []"
    by (simp_all add: list_all_iff)
  show ?thesis
    using ni assms(1) by (simp add: unsignedDecimal_def t exponentPart_def Let_def)
qed

lemma Number_digits:
  assumes "ds \<noteq> []" "list_all isDigit ds"
  shows "Number ds = roundToDouble False (decimalValue ds) 1"
proof -
  from assms obtain c u where ds: "ds = c # u" by (cases ds) auto
  with assms(2) have "isDigit c" by simp
  then have c: "c \<noteq> CHR ''+''" "c \<noteq> CHR ''-''" by (rule isDigit_cases(2), rule isDigit_cases(3))
  have "Number ds =
          (case ds of
             c # u \<Rightarrow>
               if c = CHR ''+'' then unsignedDecimal False u
               else if c = CHR ''-'' then unsignedDecimal True u
               else unsignedDecimal False ds
           | [] \<Rightarrow> NaN)"
    using assms(1)
    by (simp add: Number_def trim_digits[OF assms(2)] nonDecimalLiteral_digits[OF assms(2)])
  also have "\<dots> = unsignedDecimal False ds" using c by (simp add: ds)
  finally show ?thesis using unsignedDecimal_digits[OF assms] by simp
qed

lemma Number_zero:
  assumes "list_all isDigit ds" "decimalValue ds = 0"
  shows "Number ds = Finite 0 0"
proof (cases "ds = []")
  case True
  then show ?thesis by (simp add: Number_def trim_def)
next
  case False
  from Number_digits[OF False assms(1)] assms(2) show ?thesis
    by (simp add: roundToDouble_def)
qed

text \<open>
  Claim C9, as the code has it. \<^verbatim>\<open>createInitialGameState("10+0")\<close> is the waiting state
  on the standard board (16 pawns, both back ranks in order), white to move, both clocks
  600. For an input whose minutes field, the text before the first \<^verbatim>\<open>+\<close>, is a string
  of decimal digits of value \<open>m\<close> with \<open>1 \<le> m \<le> 600479950316066\<close>, both clocks are
  \<open>m * 60\<close>: up to that bound \<open>m * 15\<close> is below \<open>2^53\<close>, so that \<open>m\<close> and the product are
  doubles and nothing is rounded. A minutes field that \<^verbatim>\<open>Number\<close> reads as zero or as
  \<^verbatim>\<open>NaN\<close> is falsy, and \<^verbatim>\<open>minutes || 10\<close> puts 10 in its place: digits of value zero,
  an empty field and a field that is no numeral give the state of \<^verbatim>\<open>"10+0"\<close>. The
  field after the \<^verbatim>\<open>+\<close> is not read.
\<close>

theorem createInitialGameState_clocks:
  "createInitialGameState ''10+0'' = freshState (Finite 600 0)
   \<and> (ms \<noteq> [] \<and> list_all isDigit ms \<and> 1 \<le> decimalValue ms \<and> decimalValue ms \<le> 600479950316066 \<longrightarrow>
        createInitialGameState (ms @ ''+'' @ inc) = freshState (Finite (decimalValue ms * 60) 0))
   \<and> (list_all isDigit ms \<and> decimalValue ms = 0 \<longrightarrow>
        createInitialGameState (ms @ ''+'' @ inc) = freshState (Finite 600 0))
   \<and> (falsy (Number (hd (splitOn (CHR ''+'') tc))) \<longrightarrow> createInitialGameState tc = freshState (Finite 600 0))
   \<and> board (freshState t) = createInitialBoard
   \<and> pawnCount createInitialBoard = 16
   \<and> createInitialBoard ! 1 = replicate 8 (man Pawn Black False)
   \<and> createInitialBoard ! 6 = replicate 8 (man Pawn White False)
   \<and> createInitialBoard ! 0 = map (\<lambda>ty. man ty Black False) pieceOrder
   \<and> createInitialBoard ! 7 = map (\<lambda>ty. man ty White False) pieceOrder"
proof -
  have ten: "jsTimes (Finite 10 0) (Finite 60 0) = Finite 600 0"
    using times_60_exact[of 10] by simp
  have 0: "createInitialGameState ''10+0'' = freshState (Finite 600 0)"
    by code_simp
  have 1: "createInitialGameState (ms @ ''+'' @ inc) = freshState (Finite (decimalValue ms * 60) 0)"
    if h: "ms \<noteq> []" "list_all isDigit ms" "1 \<le> decimalValue ms" "decimalValue ms \<le> 600479950316066"
  proof -
    from h(3,4) have v: "0 < decimalValue ms" "decimalValue ms < 2 ^ 53" by simp_all
    have n: "Number ms = Finite (decimalValue ms) 0"
      using Number_digits[OF h(1,2)] roundToDouble_exact[OF v, of 0] by simp
    from h(4) have p: "decimalValue ms * 15 < 2 ^ 53" by simp
    have f: "\<not> falsy (Finite (decimalValue ms) 0)" using v(1) by (simp add: falsy_def)
    show ?thesis
      using times_60_exact[OF v(1) p] f
      by (simp add: createInitialGameState_eq minutes_field[OF h(2)] n del: append.simps)
  qed
  have 2: "createInitialGameState (ms @ ''+'' @ inc) = freshState (Finite 600 0)"
    if h: "list_all isDigit ms" "decimalValue ms = 0"
    using Number_zero[OF h] ten
    by (simp add: createInitialGameState_eq minutes_field[OF h(1)] falsy_def del: append.simps)
  have 3: "createInitialGameState tc = freshState (Finite 600 0)"
    if "falsy (Number (hd (splitOn (CHR ''+'') tc)))"
    using that ten by (simp add: createInitialGameState_eq)
  have 4: "board (freshState t) = createInitialBoard"
    by (simp add: freshState_def createInitialBoard_standard)
  have 5: "pawnCount createInitialBoard = 16
     \<and> createInitialBoard ! 1 = replicate 8 (man Pawn Black False)
     \<and> createInitialBoard ! 6 = replicate 8 (man Pawn White False)
     \<and> createInitialBoard ! 0 = map (\<lambda>ty. man ty Black False) pieceOrder
     \<and> createInitialBoard ! 7 = map (\<lambda>ty. man ty White False) pieceOrder"
    by code_simp
  from 0 1 2 3 4 5 show ?thesis by blast
qed

theorem createInitialGameState_clocks_witness:
  "createInitialGameState ''15+10'' = freshState (Finite 900 0)
   \<and> createInitialGameState ''0+5'' = freshState (Finite 600 0)
   \<and> createInitialGameState ''x+5'' = freshState (Finite 600 0)
   \<and> createInitialGameState ''+5'' = freshState (Finite 600 0)"
proof -
  have d: "''15'' \<noteq> []" "list_all isDigit ''15''" "decimalValue ''15'' = 15"
    "list_all isDigit ''0''" "decimalValue ''0'' = 0"
    "falsy (Number (hd (splitOn (CHR ''+'') ''x+5'')))"
    "falsy (Number (hd (splitOn (CHR ''+'') ''+5'')))"
    by code_simp+
  have a: "''15'' @ ''+'' @ ''10'' = ''15+10''" "''0'' @ ''+'' @ ''5'' = ''0+5''" by simp_all
  from createInitialGameState_clocks[where ms = "''15''" and inc = "''10''"] d(1,2,3)
  have 1: "createInitialGameState ''15+10'' = freshState (Finite 900 0)"
    unfolding a by simp
  from createInitialGameState_clocks[where ms = "''0''" and inc = "''5''"] d(4,5)
  have 2: "createInitialGameState ''0+5'' = freshState (Finite 600 0)"
    unfolding a by simp
  from createInitialGameState_clocks[where tc = "''x+5''"] d(6)
  have 3: "createInitialGameState ''x+5'' = freshState (Finite 600 0)"
    by blast
  from createInitialGameState_clocks[where tc = "''+5''"] d(7)
  have 4: "createInitialGameState ''+5'' = freshState (Finite 600 0)"
    by blast
  from 1 2 3 4 show ?thesis by blast
qed

text \<open>
  The claim as the specification states it fails in both of its general parts. A
  well-formed input does not always give clocks of \<open>minutes * 60\<close>: \<^verbatim>\<open>"0+5"\<close> has the
  minutes field 0 and clocks of 600 seconds, not 0, and \<^verbatim>\<open>"600479950316067+0"\<close>, the
  first value above the bound, has clocks of 36028797018964016 seconds, the double
  nearest to the product 36028797018964020. A malformed input does not always get the
  default: \<^verbatim>\<open>"1.5+0"\<close> gives clocks of 90 seconds and \<^verbatim>\<open>"-5+0"\<close> clocks of \<open>- 300\<close>.
\<close>

theorem clocks_not_minutes_times_60:
  "whiteTime (createInitialGameState ''0+5'') = Finite 600 0
   \<and> blackTime (createInitialGameState ''0+5'') = Finite 600 0
   \<and> whiteTime (createInitialGameState ''600479950316067+0'') = Finite 36028797018964016 0
   \<and> blackTime (createInitialGameState ''600479950316067+0'') = Finite 36028797018964016 0
   \<and> (600479950316067::int) * 60 = 36028797018964020
   \<and> whiteTime (createInitialGameState ''9007199254740991+0'') = Finite 540431955284459456 0
   \<and> (9007199254740991::int) * 60 = 540431955284459460
   \<and> createInitialGameState ''1.5+0'' = freshState (Finite 90 0)
   \<and> createInitialGameState ''-5+0'' = freshState (Finite (- 300) 0)
   \<and> createInitialGameState ''10+0'' = freshState (Finite 600 0)"
proof -
  have 1: "whiteTime (createInitialGameState ''0+5'') = Finite 600 0"
    and 2: "blackTime (createInitialGameState ''0+5'') = Finite 600 0"
    and 3: "whiteTime (createInitialGameState ''600479950316067+0'') = Finite 36028797018964016 0"
    and 4: "blackTime (createInitialGameState ''600479950316067+0'') = Finite 36028797018964016 0"
    and 5: "whiteTime (createInitialGameState ''9007199254740991+0'') = Finite 540431955284459456 0"
    and 6: "createInitialGameState ''1.5+0'' = freshState (Finite 90 0)"
    and 7: "createInitialGameState ''-5+0'' = freshState (Finite (- 300) 0)"
    and 8: "createInitialGameState ''10+0'' = freshState (Finite 600 0)"
    by code_simp+
  from 1 2 3 4 5 6 7 8 show ?thesis by simp
qed

section \<open>A larger depth budget does not change a result\<close>

text \<open>
  The budget only cuts the recursion off: a result obtained under some budget is the
  result under every larger one. So a call of the source returns \<open>v\<close> exactly when some
  budget gives \<open>Some v\<close>, and it does not return exactly when every budget gives \<open>None\<close>.
\<close>

lemma anyM_mono:
  assumes "\<And>x v. f x = Some v \<Longrightarrow> g x = Some v" "anyM f xs = Some r"
  shows "anyM g xs = Some r"
  using assms(2)
proof (induction xs)
  case Nil
  then show ?case by simp
next
  case (Cons x xs)
  from Cons.prems obtain v where v: "f x = Some v"
    and rest: "(if v then Some True else anyM f xs) = Some r"
    by (auto split: bind_splits)
  from assms(1)[OF v] have g: "g x = Some v" .
  show ?case
  proof (cases v)
    case True
    with rest g show ?thesis by simp
  next
    case False
    with rest Cons.IH g show ?thesis by simp
  qed
qed

lemma filterM_mono:
  assumes "\<And>x v. f x = Some v \<Longrightarrow> g x = Some v" "filterM f xs = Some r"
  shows "filterM g xs = Some r"
  using assms(2)
proof (induction xs arbitrary: r)
  case Nil
  then show ?case by simp
next
  case (Cons x xs)
  from Cons.prems obtain keep rest where k: "f x = Some keep" and r: "filterM f xs = Some rest"
    and e: "r = (if keep then x # rest else rest)"
    by (auto split: bind_splits)
  from assms(1)[OF k] Cons.IH[OF r] e show ?case by simp
qed

lemma castlingMoves_mono:
  assumes m: "\<And>sq v. att sq = Some v \<Longrightarrow> att' sq = Some v"
    and c: "castlingMoves att b p pc = Some cs"
  shows "castlingMoves att' b p pc = Some cs"
proof -
  have a: "anyM att' xs = Some r" if "anyM att xs = Some r" for xs r
    using m that by (rule anyM_mono)
  define side where "side = (\<lambda>(f :: Position \<Rightarrow> bool option) rc (es :: bool) ts d.
      (case getPiece b (pos (row p) rc) of
         Some rook \<Rightarrow>
           if ptype rook = Rook \<and> \<not> hasMoved rook then
             if es then do { a \<leftarrow> anyM f ts; Some (if \<not> a then [pos (row p) d] else []) }
             else Some []
           else Some []
       | None \<Rightarrow> Some []))"
  have s: "side att' rc es ts d = Some r" if "side att rc es ts d = Some r" for rc es ts d r
    using that a unfolding side_def
    by (auto split: option.splits if_splits bind_splits)
  have cm: "castlingMoves f b p pc =
      (if \<not> hasMoved pc then do {
         ks \<leftarrow> side f 7 (getPiece b (pos (row p) 5) = None \<and> getPiece b (pos (row p) 6) = None)
                 [pos (row p) 4, pos (row p) 5, pos (row p) 6] 6;
         qs \<leftarrow> side f 0 (getPiece b (pos (row p) 1) = None \<and> getPiece b (pos (row p) 2) = None
                          \<and> getPiece b (pos (row p) 3) = None)
                 [pos (row p) 4, pos (row p) 3, pos (row p) 2] 2;
         Some (ks @ qs)
       } else Some [])" for f
    unfolding castlingMoves_def side_def by simp
  show ?thesis
  proof (cases "hasMoved pc")
    case True
    with c show ?thesis by (simp add: cm)
  next
    case False
    with c obtain ks qs where
      "side att 7 (getPiece b (pos (row p) 5) = None \<and> getPiece b (pos (row p) 6) = None)
                 [pos (row p) 4, pos (row p) 5, pos (row p) 6] 6 = Some ks"
      "side att 0 (getPiece b (pos (row p) 1) = None \<and> getPiece b (pos (row p) 2) = None
                          \<and> getPiece b (pos (row p) 3) = None)
                 [pos (row p) 4, pos (row p) 3, pos (row p) 2] 2 = Some qs"
      "cs = ks @ qs"
      unfolding cm by (auto split: bind_splits)
    with s[OF this(1)] s[OF this(2)] False show ?thesis
      unfolding cm by simp
  qed
qed

lemma getRawMoves_mono_step:
  assumes "\<And>b p d v. isSquareAttacked n b p d = Some v \<Longrightarrow> isSquareAttacked (Suc n) b p d = Some v"
    and "getRawMoves n b p ept = Some ms"
  shows "getRawMoves (Suc n) b p ept = Some ms"
proof (cases "getPiece b p")
  case None
  with assms(2) show ?thesis by (simp add: getRawMoves.simps)
next
  case (Some pc)
  show ?thesis
  proof (cases "ptype pc = King")
    case False
    from getRawMoves_not_king[OF Some False, of n ept] getRawMoves_not_king[OF Some False, of "Suc n" ept]
      assms(2) show ?thesis by simp
  next
    case True
    with Some assms(2) obtain cs where
      cs: "castlingMoves (\<lambda>sq. isSquareAttacked n b sq (color pc)) b p pc = Some cs"
      and ms: "ms = stepMoves b p pc kingOffsets @ cs"
      using getRawMoves_king by blast
    have "castlingMoves (\<lambda>sq. isSquareAttacked (Suc n) b sq (color pc)) b p pc = Some cs"
      by (rule castlingMoves_mono[OF _ cs]) (rule assms(1))
    with Some True ms show ?thesis by (simp add: getRawMoves.simps)
  qed
qed

lemma isSquareAttacked_mono_Suc:
  "isSquareAttacked n b p d = Some v \<Longrightarrow> isSquareAttacked (Suc n) b p d = Some v"
proof (induction n arbitrary: b p d v)
  case 0
  then show ?case by (simp add: isSquareAttacked.simps)
next
  case (Suc n)
  have r: "getRawMoves (Suc n) b' q e = Some ms" if "getRawMoves n b' q e = Some ms" for b' q e ms
    using Suc.IH that by (rule getRawMoves_mono_step)
  let ?f = "\<lambda>k sq. case at b (row sq) (col sq) of
                  None \<Rightarrow> Some False
                | Some pc \<Rightarrow>
                    if color pc = opposite d then do {
                      ms \<leftarrow> getRawMoves k b sq None;
                      Some (list_ex (\<lambda>m. samePos m p) ms)
                    } else Some False"
  have "?f (Suc n) x = Some w" if "?f n x = Some w" for x w
    using that r by (auto split: option.splits if_splits bind_splits)
  moreover from Suc.prems have "anyM (?f n) allSquares = Some v"
    by (simp add: isSquareAttacked.simps)
  ultimately have "anyM (?f (Suc n)) allSquares = Some v"
    by (rule anyM_mono)
  then show ?case by (simp add: isSquareAttacked.simps)
qed

lemma getRawMoves_mono_Suc:
  "getRawMoves n b p ept = Some ms \<Longrightarrow> getRawMoves (Suc n) b p ept = Some ms"
  using isSquareAttacked_mono_Suc by (rule getRawMoves_mono_step)

lemma isInCheck_mono_Suc:
  "isInCheck n b c = Some v \<Longrightarrow> isInCheck (Suc n) b c = Some v"
  by (auto simp: isInCheck_def isSquareAttacked_mono_Suc split: option.splits)

lemma getLegalMoves_mono_Suc:
  assumes "getLegalMoves n b p ept = Some ms"
  shows "getLegalMoves (Suc n) b p ept = Some ms"
proof (cases "getPiece b p")
  case None
  with assms show ?thesis by (simp add: getLegalMoves_def)
next
  case (Some pc)
  with assms obtain raw where raw: "getRawMoves n b p ept = Some raw"
    and f: "filterM (\<lambda>m. do { chk \<leftarrow> isInCheck n (testBoard b p pc ept m) (color pc); Some (\<not> chk) }) raw
              = Some ms"
    by (auto simp: getLegalMoves_def split: bind_splits)
  have "(do { chk \<leftarrow> isInCheck (Suc n) (testBoard b p pc ept m) (color pc); Some (\<not> chk) }) = Some w"
    if "(do { chk \<leftarrow> isInCheck n (testBoard b p pc ept m) (color pc); Some (\<not> chk) }) = Some w" for m w
    using that isInCheck_mono_Suc by (auto split: bind_splits)
  from filterM_mono[of _ _ raw ms, OF this f] getRawMoves_mono_Suc[OF raw] Some
  show ?thesis by (simp add: getLegalMoves_def)
qed

lemma hasLegalMoves_mono_Suc:
  assumes "hasLegalMoves n b c ept = Some v"
  shows "hasLegalMoves (Suc n) b c ept = Some v"
proof -
  let ?f = "\<lambda>k sq. case at b (row sq) (col sq) of
                  None \<Rightarrow> Some False
                | Some p \<Rightarrow>
                    if color p = c then do {
                      ms \<leftarrow> getLegalMoves k b sq ept;
                      Some (length ms > 0)
                    } else Some False"
  have "?f (Suc n) x = Some w" if "?f n x = Some w" for x w
    using that getLegalMoves_mono_Suc by (auto split: option.splits if_splits bind_splits)
  moreover from assms have "anyM (?f n) allSquares = Some v" by (simp add: hasLegalMoves_def)
  ultimately have "anyM (?f (Suc n)) allSquares = Some v" by (rule anyM_mono)
  then show ?thesis by (simp add: hasLegalMoves_def)
qed

lemma terminalCheck_mono_Suc:
  "terminalCheck n b c ept st0 mv = Some r \<Longrightarrow> terminalCheck (Suc n) b c ept st0 mv = Some r"
  unfolding terminalCheck_def
  by (auto simp: hasLegalMoves_mono_Suc isInCheck_mono_Suc split: bind_splits if_splits)

lemma applyLegal_mono_Suc:
  assumes "applyLegal n s pc f t p = Some s'"
  shows "applyLegal (Suc n) s pc f t p = Some s'"
proof -
  define st0 where "st0 = (if status s = Waiting then Playing else status s)"
  from assms obtain r where
    r: "terminalCheck n (movedBoard s pc f t p) (opposite (turn s)) (newEnPassantTarget pc f t) st0 (turn s)
          = Some r"
    unfolding applyLegal_def Let_def st0_def by (auto split: bind_splits)
  from terminalCheck_mono_Suc[OF r] r assms show ?thesis
    unfolding applyLegal_def Let_def st0_def by simp
qed

lemma makeMove_mono_Suc:
  assumes "makeMove n s f t p = Some r"
  shows "makeMove (Suc n) s f t p = Some r"
proof (cases "getPiece (board s) f")
  case None
  with assms show ?thesis by (simp add: makeMove_def)
next
  case (Some pc)
  show ?thesis
  proof (cases "color pc = turn s")
    case False
    with Some assms show ?thesis by (simp add: makeMove_def)
  next
    case True
    with Some assms obtain ms where ms: "getLegalMoves n (board s) f (enPassantTarget s) = Some ms"
      by (auto simp: makeMove_def split: bind_splits)
    note ms' = getLegalMoves_mono_Suc[OF ms]
    show ?thesis
    proof (cases "list_ex (\<lambda>m. samePos m t) ms")
      case False
      with Some True ms ms' assms show ?thesis by (simp add: makeMove_def)
    next
      case inlist: True
      with Some True ms assms obtain s' where a: "applyLegal n s pc f t p = Some s'" and r: "r = Some s'"
        by (auto simp: makeMove_def)
      from applyLegal_mono_Suc[OF a] r Some True ms' inlist show ?thesis
        by (simp add: makeMove_def)
    qed
  qed
qed

lemma makeMove_mono: "makeMove n s f t p = Some r \<Longrightarrow> makeMove (n + k) s f t p = Some r"
  by (induction k) (simp_all add: makeMove_mono_Suc)

lemma getLegalMoves_mono: "getLegalMoves n b p ept = Some ms \<Longrightarrow> getLegalMoves (n + k) b p ept = Some ms"
  by (induction k) (simp_all add: getLegalMoves_mono_Suc)

lemma isInCheck_mono: "isInCheck n b c = Some v \<Longrightarrow> isInCheck (n + k) b c = Some v"
  by (induction k) (simp_all add: isInCheck_mono_Suc)

section \<open>Boards in the store\<close>

lemma deref_length: "length (deref h bd) = length bd"
  by (simp add: deref_def)

lemma refsIn_iff: "refsIn h bd \<longleftrightarrow> (\<forall>a \<in> set bd. a < length h)"
  by (simp add: refsIn_def list_all_iff)

lemma unchangedIn_refl: "unchangedIn h h"
  by (simp add: unchangedIn_def)

lemma unchangedIn_nth: "unchangedIn h h' \<Longrightarrow> a < length h \<Longrightarrow> h' ! a = h ! a"
  unfolding unchangedIn_def by (metis nth_take)

lemma unchangedIn_trans:
  assumes "unchangedIn h h1" "unchangedIn h1 h2"
  shows "unchangedIn h h2"
proof -
  from assms have l: "length h \<le> length h1" "length h1 \<le> length h2"
    by (auto simp: unchangedIn_def)
  have "take (length h) h2 = h"
  proof (rule nth_equalityI)
    show "length (take (length h) h2) = length h" using l by simp
  next
    fix i assume "i < length (take (length h) h2)"
    then have i: "i < length h" by simp
    then have "h2 ! i = h1 ! i" using unchangedIn_nth[OF assms(2)] l by simp
    also have "\<dots> = h ! i" using unchangedIn_nth[OF assms(1) i] .
    finally show "take (length h) h2 ! i = h ! i" using i by simp
  qed
  with l show ?thesis by (simp add: unchangedIn_def)
qed

lemma unchangedIn_append: "unchangedIn h (h @ xs)"
  by (simp add: unchangedIn_def)

lemma unchangedIn_deref: "unchangedIn h h' \<Longrightarrow> refsIn h bd \<Longrightarrow> deref h' bd = deref h bd"
  by (simp add: deref_def refsIn_iff unchangedIn_nth)

lemma unchangedIn_refsIn: "unchangedIn h h' \<Longrightarrow> refsIn h bd \<Longrightarrow> refsIn h' bd"
  by (auto simp: refsIn_iff unchangedIn_def)

lemma deref_fresh: "deref (h @ xs) [length h ..< length h + length xs] = xs"
  by (rule nth_equalityI) (simp_all add: deref_def nth_append)

lemma writeSq_length: "length (writeSq h bd r c v) = length h"
  by (simp add: writeSq_def)

lemma writeSq_refsIn: "refsIn (writeSq h tb r c v) bd = refsIn h bd"
  by (simp add: refsIn_def writeSq_length)

lemma writeSq_unchanged:
  assumes "unchangedIn h h0" "\<forall>a \<in> set tb. length h \<le> a"
  shows "unchangedIn h (writeSq h0 tb r c v)"
proof (cases "0 \<le> r \<and> nat r < length tb")
  case True
  then have "length h \<le> tb ! nat r" using assms(2) by simp
  then show ?thesis
    using assms(1) True by (simp add: writeSq_def unchangedIn_def)
next
  case False
  then show ?thesis using assms(1) by (auto simp: writeSq_def)
qed

lemma writeSq_deref:
  assumes "distinct tb" "refsIn h tb" "0 \<le> r"
  shows "deref (writeSq h tb r c v) tb = setAt (deref h tb) r c v"
proof (cases "nat r < length tb")
  case True
  let ?a = "tb ! nat r"
  have a: "?a < length h" using assms(2) True by (simp add: refsIn_iff)
  show ?thesis
  proof (rule nth_equalityI)
    show "length (deref (writeSq h tb r c v) tb) = length (setAt (deref h tb) r c v)"
      by (simp add: deref_def setAt_def)
  next
    fix i assume "i < length (deref (writeSq h tb r c v) tb)"
    then have i: "i < length tb" by (simp add: deref_def)
    show "deref (writeSq h tb r c v) tb ! i = setAt (deref h tb) r c v ! i"
    proof (cases "i = nat r")
      case True
      then show ?thesis using i a assms(3) by (simp add: deref_def setAt_def writeSq_def)
    next
      case False
      then have "tb ! i \<noteq> ?a" using assms(1) i True by (simp add: nth_eq_iff_index_eq)
      then show ?thesis using i False True assms(3) by (simp add: deref_def setAt_def writeSq_def)
    qed
  qed
next
  case False
  then have "length (deref h tb) \<le> nat r" by (simp add: deref_length)
  then have "setAt (deref h tb) r c v = deref h tb"
    unfolding setAt_def by (rule list_update_beyond)
  with False show ?thesis by (simp add: writeSq_def)
qed

text \<open>The clone: a new board object with the value of the old one; nothing else changes.\<close>

lemma cloneBoardS_spec:
  assumes "cloneBoardS h bd = (h0, tb)"
  shows "unchangedIn h h0" and "deref h0 tb = deref h bd" and "distinct tb" and "refsIn h0 tb"
    and "\<forall>a \<in> set tb. length h \<le> a"
proof -
  from assms have h0: "h0 = h @ deref h bd" and tb: "tb = [length h ..< length h + length bd]"
    by (auto simp: cloneBoardS_def cloneBoard_id)
  show "unchangedIn h h0" by (simp add: h0 unchangedIn_append)
  show "deref h0 tb = deref h bd"
    using deref_fresh[of h "deref h bd"] by (simp add: h0 tb deref_length)
  show "distinct tb" by (simp add: tb)
  show "refsIn h0 tb" by (simp add: refsIn_iff h0 tb deref_length)
  show "\<forall>a \<in> set tb. length h \<le> a" by (simp add: tb)
qed

section \<open>Every raw move is a square of the board\<close>

lemma slide_valid: "m \<in> set (slide b r c dr dc clr) \<Longrightarrow> isValidPosition m"
proof (induction b r c dr dc clr rule: slide.induct)
  case (1 b r c dr dc clr)
  show ?case
  proof (cases "(dr = 0 \<and> dc = 0) \<or> \<not> isValidPosition (pos r c)")
    case True
    with "1.prems" show ?thesis by (subst (asm) slide.simps) (auto split: if_splits)
  next
    case False
    then have nz: "\<not> (dr = 0 \<and> dc = 0)" and v: "isValidPosition (pos r c)" by auto
    show ?thesis
    proof (cases "getPiece b (pos r c)")
      case None
      from "1.prems" nz v None
      have "m = pos r c \<or> m \<in> set (slide b (r + dr) (c + dc) dr dc clr)"
        by (subst (asm) slide.simps) (auto split: if_splits)
      then show ?thesis using v "1.IH"[OF nz v None] by blast
    next
      case (Some target)
      from "1.prems" nz v Some have "m = pos r c"
        by (subst (asm) slide.simps) (auto split: if_splits)
      with v show ?thesis by simp
    qed
  qed
qed

lemma slidingMoves_valid: "m \<in> set (slidingMoves b p pc ds) \<Longrightarrow> isValidPosition m"
  by (auto simp: slidingMoves_def addSlidingMoves_def dest: slide_valid)

lemma pawnMoves_valid:
  assumes "m \<in> set (pawnMoves b p pc ept)" "isValidPosition p"
  shows "isValidPosition m"
  using pawnMoves_cases[OF assms(1)] assms(2)
  by (auto simp: isValidPosition_def pos_def forwardDirection_def split: if_splits)

lemma castlingMoves_valid:
  assumes "castlingMoves att b p pc = Some cs" "m \<in> set cs" "isValidPosition p"
  shows "isValidPosition m"
proof -
  from assms(1,2) have "m = pos (row p) 6 \<or> m = pos (row p) 2"
    unfolding castlingMoves_def
    by (auto split: if_splits option.splits bind_splits)
  with assms(3) show ?thesis by (auto simp: isValidPosition_def pos_def)
qed

lemma rawMoves_valid:
  assumes "getRawMoves n b p ept = Some ms" "m \<in> set ms"
  shows "isValidPosition m"
proof (cases "getPiece b p")
  case None
  with assms show ?thesis by (simp add: getRawMoves.simps)
next
  case (Some pc)
  have v: "isValidPosition p" by (rule getPiece_Some_valid[OF Some])
  show ?thesis
  proof (cases "ptype pc")
    case Pawn
    with assms Some v show ?thesis by (auto simp: getRawMoves.simps dest: pawnMoves_valid)
  next
    case King
    from getRawMoves_king[OF Some King assms(1)] obtain cs
      where cs: "castlingMoves (\<lambda>sq. isSquareAttacked n b sq (color pc)) b p pc = Some cs"
        and ms: "ms = stepMoves b p pc kingOffsets @ cs" by blast
    from assms(2) ms consider "m \<in> set (stepMoves b p pc kingOffsets)" | "m \<in> set cs" by auto
    then show ?thesis
    proof cases
      case 1 then show ?thesis using stepMoves_mem by blast
    next
      case 2 then show ?thesis by (rule castlingMoves_valid[OF cs _ v])
    qed
  next
    case Knight
    with assms Some show ?thesis using stepMoves_mem by (auto simp: getRawMoves.simps)
  next
    case Bishop
    with assms Some show ?thesis by (auto simp: getRawMoves.simps dest: slidingMoves_valid)
  next
    case Rook
    with assms Some show ?thesis by (auto simp: getRawMoves.simps dest: slidingMoves_valid)
  next
    case Queen
    with assms Some show ?thesis by (auto simp: getRawMoves.simps dest: slidingMoves_valid)
  qed
qed

lemma black_pawn_row:
  assumes "getPiece b p = Some pc" "ptype pc = Pawn" "color pc = Black"
    and "getRawMoves n b p ept = Some ms" "m \<in> set ms"
  shows "1 \<le> row m"
proof -
  have v: "isValidPosition p" by (rule getPiece_Some_valid[OF assms(1)])
  from assms have "m \<in> set (pawnMoves b p pc ept)" by (simp add: getRawMoves.simps)
  from pawnMoves_rows[OF this] v assms(3) show ?thesis
    by (auto simp: forwardDirection_def isValidPosition_def)
qed

section \<open>The legal moves, computed in the store\<close>

lemma testBoardS_spec:
  assumes t: "testBoardS h bd p pc ept m = (h1, tb)"
  shows "unchangedIn h h1"
    and "0 \<le> row m \<Longrightarrow> 0 \<le> row p \<Longrightarrow> (ptype pc = Pawn \<Longrightarrow> color pc = Black \<Longrightarrow> 1 \<le> row m)
         \<Longrightarrow> deref h1 tb = testBoard (deref h bd) p pc ept m"
proof -
  obtain h0 tb0 where c: "cloneBoardS h bd = (h0, tb0)" by (cases "cloneBoardS h bd")
  note cs = cloneBoardS_spec[OF c]
  define w1 where "w1 = writeSq h0 tb0 (row m) (col m) (Some (pc\<lparr>hasMoved := True\<rparr>))"
  define w2 where "w2 = writeSq w1 tb0 (row p) (col p) None"
  define ep where "ep = (ptype pc = Pawn \<and> (case ept of Some e \<Rightarrow> row m = row e \<and> col m = col e | None \<Rightarrow> False))"
  define cr where "cr = (if color pc = White then row m + 1 else row m - 1)"
  define w3 where "w3 = writeSq w2 tb0 cr (col m) None"
  from t c have r: "tb = tb0" "h1 = (if ep then w3 else w2)"
    by (auto simp: testBoardS_def Let_def w1_def w2_def w3_def ep_def cr_def split: if_splits)
  have u1: "unchangedIn h w1" unfolding w1_def by (rule writeSq_unchanged[OF cs(1) cs(5)])
  have u2: "unchangedIn h w2" unfolding w2_def by (rule writeSq_unchanged[OF u1 cs(5)])
  have u3: "unchangedIn h w3" unfolding w3_def by (rule writeSq_unchanged[OF u2 cs(5)])
  show "unchangedIn h h1" using u2 u3 by (simp add: r)
  assume rows: "0 \<le> row m" "0 \<le> row p" and bp: "ptype pc = Pawn \<Longrightarrow> color pc = Black \<Longrightarrow> 1 \<le> row m"
  have r1: "refsIn w1 tb0" unfolding w1_def using cs(4) by (simp add: writeSq_refsIn)
  have r2: "refsIn w2 tb0" unfolding w2_def using r1 by (simp add: writeSq_refsIn)
  have d1: "deref w1 tb0 = setAt (deref h bd) (row m) (col m) (Some (pc\<lparr>hasMoved := True\<rparr>))"
    unfolding w1_def using writeSq_deref[OF cs(3) cs(4) rows(1)] cs(2) by simp
  have d2: "deref w2 tb0 = setAt (deref w1 tb0) (row p) (col p) None"
    unfolding w2_def by (rule writeSq_deref[OF cs(3) r1 rows(2)])
  have d3: "deref w3 tb0 = setAt (deref w2 tb0) cr (col m) None" if ep
  proof -
    from that have "ptype pc = Pawn" by (simp add: ep_def)
    with bp rows(1) have "0 \<le> cr" by (cases "color pc") (auto simp: cr_def)
    then show ?thesis unfolding w3_def by (rule writeSq_deref[OF cs(3) r2])
  qed
  show "deref h1 tb = testBoard (deref h bd) p pc ept m"
    using d1 d2 d3 by (simp add: r testBoard_def Let_def cloneBoard_id ep_def cr_def)
qed

lemma legalLoopS_frame:
  "legalLoopS n h bd p pc ept ms = Some (h', r) \<Longrightarrow> unchangedIn h h'"
proof (induction ms arbitrary: h h' r)
  case Nil
  then show ?case by (simp add: unchangedIn_refl)
next
  case (Cons m ms)
  obtain h1 tb where t: "testBoardS h bd p pc ept m = (h1, tb)" by (cases "testBoardS h bd p pc ept m")
  from Cons.prems t obtain rest where "legalLoopS n h1 bd p pc ept ms = Some (h', rest)"
    by (auto split: bind_splits prod.splits)
  from Cons.IH[OF this] testBoardS_spec(1)[OF t] show ?case by (blast intro: unchangedIn_trans)
qed

lemma legalLoopS_refines:
  assumes "refsIn h bd" "0 \<le> row p"
    and "\<forall>m \<in> set ms. 0 \<le> row m \<and> (ptype pc = Pawn \<and> color pc = Black \<longrightarrow> 1 \<le> row m)"
  shows "map_option snd (legalLoopS n h bd p pc ept ms)
       = filterM (\<lambda>m. do { chk \<leftarrow> isInCheck n (testBoard (deref h bd) p pc ept m) (color pc); Some (\<not> chk) }) ms"
  using assms
proof (induction ms arbitrary: h)
  case Nil
  show ?case by simp
next
  case (Cons m ms)
  obtain h1 tb where t: "testBoardS h bd p pc ept m = (h1, tb)" by (cases "testBoardS h bd p pc ept m")
  from Cons.prems(3) have rows: "0 \<le> row m" "ptype pc = Pawn \<Longrightarrow> color pc = Black \<Longrightarrow> 1 \<le> row m"
    and rest: "\<forall>m \<in> set ms. 0 \<le> row m \<and> (ptype pc = Pawn \<and> color pc = Black \<longrightarrow> 1 \<le> row m)"
    by simp_all
  note u = testBoardS_spec(1)[OF t]
  have d: "deref h1 tb = testBoard (deref h bd) p pc ept m"
    by (rule testBoardS_spec(2)[OF t rows(1) Cons.prems(2) rows(2)])
  have r1: "refsIn h1 bd" by (rule unchangedIn_refsIn[OF u Cons.prems(1)])
  have b1: "deref h1 bd = deref h bd" by (rule unchangedIn_deref[OF u Cons.prems(1)])
  note ih = Cons.IH[OF r1 Cons.prems(2) rest, unfolded b1]
  show ?case
  proof (cases "isInCheck n (testBoard (deref h bd) p pc ept m) (color pc)")
    case None
    then show ?thesis by (simp add: t d)
  next
    case (Some chk)
    show ?thesis
    proof (cases "legalLoopS n h1 bd p pc ept ms")
      case None
      with ih have "filterM (\<lambda>m. do { chk \<leftarrow> isInCheck n (testBoard (deref h bd) p pc ept m) (color pc); Some (\<not> chk) }) ms
                 = None"
        by simp
      with None Some show ?thesis by (simp add: t d)
    next
      case (Some a)
      obtain h2 rs where a: "a = (h2, rs)" by (cases a)
      from ih Some a
      have f: "filterM (\<lambda>m. do { chk \<leftarrow> isInCheck n (testBoard (deref h bd) p pc ept m) (color pc); Some (\<not> chk) }) ms
                 = Some rs"
        by simp
      from Some a \<open>isInCheck n (testBoard (deref h bd) p pc ept m) (color pc) = Some chk\<close>
      show ?thesis by (simp add: t d f)
    qed
  qed
qed

lemma getLegalMovesS_frame:
  "getLegalMovesS n h bd p ept = Some (h', r) \<Longrightarrow> unchangedIn h h'"
  unfolding getLegalMovesS_def
  by (auto simp: unchangedIn_refl dest: legalLoopS_frame split: option.splits bind_splits)

lemma getLegalMovesS_refines:
  assumes "refsIn h bd"
  shows "map_option snd (getLegalMovesS n h bd p ept) = getLegalMoves n (deref h bd) p ept"
proof (cases "getPiece (deref h bd) p")
  case None
  then show ?thesis by (simp add: getLegalMovesS_def getLegalMoves_def)
next
  case (Some pc)
  have v: "isValidPosition p" by (rule getPiece_Some_valid[OF Some])
  then have rp: "0 \<le> row p" by (simp add: isValidPosition_def)
  show ?thesis
  proof (cases "getRawMoves n (deref h bd) p ept")
    case None
    with Some show ?thesis by (simp add: getLegalMovesS_def getLegalMoves_def)
  next
    case (Some raw)
    have "\<forall>m \<in> set raw. 0 \<le> row m \<and> (ptype pc = Pawn \<and> color pc = Black \<longrightarrow> 1 \<le> row m)"
    proof
      fix m assume m: "m \<in> set raw"
      from rawMoves_valid[OF Some m] have "0 \<le> row m" by (simp add: isValidPosition_def)
      moreover have "1 \<le> row m" if "ptype pc = Pawn" "color pc = Black"
        by (rule black_pawn_row[OF \<open>getPiece (deref h bd) p = Some pc\<close> that Some m])
      ultimately show "0 \<le> row m \<and> (ptype pc = Pawn \<and> color pc = Black \<longrightarrow> 1 \<le> row m)" by blast
    qed
    from legalLoopS_refines[OF assms rp this, of n ept] Some \<open>getPiece (deref h bd) p = Some pc\<close>
    show ?thesis by (simp add: getLegalMovesS_def getLegalMoves_def)
  qed
qed

section \<open>What a call of makeMove leaves alone\<close>

lemma storeOf_refs: "refsIn (storeOf s) (boardOf s)" "deref (storeOf s) (boardOf s) = board s"
proof -
  show "refsIn (storeOf s) (boardOf s)" by (simp add: refsIn_iff storeOf_def boardOf_def)
  show "deref (storeOf s) (boardOf s) = board s"
    using deref_fresh[of "[]" "board s"] by (simp add: storeOf_def boardOf_def)
qed

lemma makeMoveS_null:
  assumes r: "refsIn h bd" and b: "board s = deref h bd"
    and rej: "getPiece (board s) f = None
           \<or> (\<exists>pc. getPiece (board s) f = Some pc \<and> color pc \<noteq> turn s)
           \<or> (\<exists>ms. getLegalMoves n (board s) f (enPassantTarget s) = Some ms \<and> t \<notin> set ms)"
  shows "\<exists>h'. makeMoveS n h bd s f t p = Some (h', None) \<and> unchangedIn h h' \<and> deref h' bd = board s"
proof (cases "getPiece (deref h bd) f")
  case None
  then show ?thesis using b by (simp add: makeMoveS_def unchangedIn_refl)
next
  case (Some pc)
  show ?thesis
  proof (cases "color pc \<noteq> turn s")
    case True
    with Some show ?thesis using b by (simp add: makeMoveS_def unchangedIn_refl)
  next
    case False
    with rej Some b obtain ms where ms: "getLegalMoves n (deref h bd) f (enPassantTarget s) = Some ms" "t \<notin> set ms"
      by auto
    from getLegalMovesS_refines[OF r, of n f "enPassantTarget s"] ms(1)
    obtain h1 where g: "getLegalMovesS n h bd f (enPassantTarget s) = Some (h1, ms)" by auto
    note u = getLegalMovesS_frame[OF g]
    from g ms(2) Some False have "makeMoveS n h bd s f t p = Some (h1, None)"
      by (simp add: makeMoveS_def list_ex_samePos)
    with u unchangedIn_deref[OF u r] b show ?thesis by simp
  qed
qed

lemma makeMoveS_stuck:
  assumes "refsIn h bd" "getPiece (deref h bd) f = Some pc" "color pc = turn s"
    and "getLegalMoves n (deref h bd) f (enPassantTarget s) = None"
  shows "makeMoveS n h bd s f t p = None"
proof -
  from getLegalMovesS_refines[OF assms(1), of n f "enPassantTarget s"] assms(4)
  have "getLegalMovesS n h bd f (enPassantTarget s) = None" by simp
  with assms(2,3) show ?thesis by (simp add: makeMoveS_def)
qed

section \<open>makeMove in the store and makeMove on values\<close>

lemma scanS_frame:
  "scanS n h bd c ept sqs = Some (h', r) \<Longrightarrow> unchangedIn h h'"
proof (induction sqs arbitrary: h)
  case Nil
  then show ?case by (simp add: unchangedIn_refl)
next
  case (Cons sq sqs)
  show ?case
  proof (cases "at (deref h bd) (row sq) (col sq)")
    case None
    with Cons.prems have "scanS n h bd c ept sqs = Some (h', r)" by simp
    then show ?thesis by (rule Cons.IH)
  next
    case (Some pc)
    show ?thesis
    proof (cases "color pc = c")
      case False
      with Some Cons.prems have "scanS n h bd c ept sqs = Some (h', r)" by simp
      then show ?thesis by (rule Cons.IH)
    next
      case True
      with Some Cons.prems obtain h1 ms where g: "getLegalMovesS n h bd sq ept = Some (h1, ms)"
        and k: "(if length ms > 0 then Some (h1, True) else scanS n h1 bd c ept sqs) = Some (h', r)"
        by (auto split: bind_splits)
      note u = getLegalMovesS_frame[OF g]
      show ?thesis
      proof (cases "length ms > 0")
        case True
        with k u show ?thesis by simp
      next
        case False
        with k have "scanS n h1 bd c ept sqs = Some (h', r)" by simp
        from Cons.IH[OF this] u show ?thesis by (blast intro: unchangedIn_trans)
      qed
    qed
  qed
qed

lemma scanS_refines:
  assumes "refsIn h bd"
  shows "map_option snd (scanS n h bd c ept sqs)
       = anyM (\<lambda>sq. case at (deref h bd) (row sq) (col sq) of
                      None \<Rightarrow> Some False
                    | Some p \<Rightarrow>
                        if color p = c then do {
                          ms \<leftarrow> getLegalMoves n (deref h bd) sq ept;
                          Some (length ms > 0)
                        } else Some False) sqs"
  using assms
proof (induction sqs arbitrary: h)
  case Nil
  show ?case by simp
next
  case (Cons sq sqs)
  note ih = Cons.IH[OF Cons.prems]
  show ?case
  proof (cases "at (deref h bd) (row sq) (col sq)")
    case None
    with ih show ?thesis by simp
  next
    case (Some pc)
    show ?thesis
    proof (cases "color pc = c")
      case False
      with Some ih show ?thesis by simp
    next
      case True
      note r = getLegalMovesS_refines[OF Cons.prems, of n sq ept]
      show ?thesis
      proof (cases "getLegalMovesS n h bd sq ept")
        case None
        with r have "getLegalMoves n (deref h bd) sq ept = None" by simp
        with None Some True show ?thesis by simp
      next
        case (Some a)
        obtain h1 ms where a: "a = (h1, ms)" by (cases a)
        from r Some a have g: "getLegalMoves n (deref h bd) sq ept = Some ms" by simp
        note u = getLegalMovesS_frame[OF Some[unfolded a]]
        have r1: "refsIn h1 bd" by (rule unchangedIn_refsIn[OF u Cons.prems])
        have b1: "deref h1 bd = deref h bd" by (rule unchangedIn_deref[OF u Cons.prems])
        note ih1 = Cons.IH[OF r1, unfolded b1]
        from Some a g True \<open>at (deref h bd) (row sq) (col sq) = Some pc\<close> ih1
        show ?thesis by simp
      qed
    qed
  qed
qed

lemma castledBoardS_spec:
  assumes "distinct nb" "refsIn h nb" "0 \<le> row f"
  shows "deref (castledBoardS h nb pc f t) nb = castledBoard (deref h nb) pc f t"
proof (cases "isCastling pc f t")
  case False
  then show ?thesis by (simp add: castledBoardS_def castledBoard_def)
next
  case True
  define rf :: int where "rf = (if col t > col f then 7 else 0)"
  define rt :: int where "rt = (if col t > col f then 5 else 3)"
  define v where "v = map_option (\<lambda>rk. rk\<lparr>hasMoved := True\<rparr>) (at (deref h nb) (row f) rf)"
  define h1 where "h1 = writeSq h nb (row f) rt v"
  have r1: "refsIn h1 nb" using assms(2) by (simp add: h1_def writeSq_refsIn)
  have d1: "deref h1 nb = setAt (deref h nb) (row f) rt v"
    unfolding h1_def by (rule writeSq_deref[OF assms])
  have d2: "deref (writeSq h1 nb (row f) rf None) nb = setAt (deref h1 nb) (row f) rf None"
    by (rule writeSq_deref[OF assms(1) r1 assms(3)])
  from True d1 d2 show ?thesis
    by (simp add: castledBoardS_def castledBoard_def Let_def rf_def rt_def v_def h1_def)
qed

lemma castledBoardS_frame:
  assumes "unchangedIn h h0" "\<forall>a \<in> set nb. length h \<le> a"
  shows "unchangedIn h (castledBoardS h0 nb pc f t)"
  using assms by (simp add: castledBoardS_def Let_def writeSq_unchanged)

lemma castledBoardS_refsIn: "refsIn (castledBoardS h nb pc f t) bd = refsIn h bd"
  by (simp add: castledBoardS_def Let_def writeSq_refsIn)

lemma movedBoardS_frame:
  assumes "unchangedIn h h0" "\<forall>a \<in> set nb. length h \<le> a"
  shows "unchangedIn h (movedBoardS h0 nb s pc f t p)"
  using assms by (simp add: movedBoardS_def Let_def writeSq_unchanged castledBoardS_frame)

lemma movedBoardS_refsIn: "refsIn (movedBoardS h nb s pc f t p) bd = refsIn h bd"
  by (simp add: movedBoardS_def Let_def writeSq_refsIn castledBoardS_refsIn)

lemma movedBoardS_spec:
  assumes d: "distinct nb" and r: "refsIn h nb" and b: "deref h nb = board s"
    and rows: "0 \<le> row f" "0 \<le> row t"
    and ep: "isEnPassant (enPassantTarget s) pc t \<Longrightarrow> 0 \<le> capturedPawnRow pc t"
  shows "deref (movedBoardS h nb s pc f t p) nb = movedBoard s pc f t p"
proof -
  define h1 where "h1 = castledBoardS h nb pc f t"
  define h2 where "h2 = (if isEnPassant (enPassantTarget s) pc t
                then writeSq h1 nb (capturedPawnRow pc t) (col t) None else h1)"
  define v where "v = (if isPromotion pc t
                       then Some \<lparr>ptype = promotedTo p, color = color pc, hasMoved = True\<rparr>
                       else Some (pc\<lparr>hasMoved := True\<rparr>))"
  define h3 where "h3 = writeSq h2 nb (row t) (col t) v"
  have m: "movedBoardS h nb s pc f t p = writeSq h3 nb (row f) (col f) None"
    by (simp add: movedBoardS_def Let_def h1_def h2_def h3_def v_def)
  have r1: "refsIn h1 nb" using r by (simp add: h1_def castledBoardS_refsIn)
  have r2: "refsIn h2 nb" using r1 by (simp add: h2_def writeSq_refsIn)
  have r3: "refsIn h3 nb" using r2 by (simp add: h3_def writeSq_refsIn)
  have d1: "deref h1 nb = castledBoard (board s) pc f t"
    unfolding h1_def using castledBoardS_spec[OF d r rows(1)] b by simp
  have d2: "deref h2 nb = (if isEnPassant (enPassantTarget s) pc t
                then setAt (castledBoard (board s) pc f t) (capturedPawnRow pc t) (col t) None
                else castledBoard (board s) pc f t)"
    using writeSq_deref[OF d r1 ep] d1 by (simp add: h2_def)
  have d3: "deref h3 nb = setAt (deref h2 nb) (row t) (col t) v"
    unfolding h3_def by (rule writeSq_deref[OF d r2 rows(2)])
  have d4: "deref (writeSq h3 nb (row f) (col f) None) nb = setAt (deref h3 nb) (row f) (col f) None"
    by (rule writeSq_deref[OF d r3 rows(1)])
  show ?thesis
    unfolding m d4 d3 d2 by (simp add: movedBoard_def Let_def cloneBoard_id v_def)
qed

lemma moveRecordS_spec:
  assumes "distinct nb" "refsIn h0 nb" "deref h0 nb = board s" "deref hw bd = board s" "0 \<le> row f"
  shows "moveRecordS h0 hw bd nb s pc f t p = moveRecord s pc f t p"
  using castledBoardS_spec[OF assms(1,2,5), of pc t] assms(3,4)
  by (simp add: moveRecordS_def moveRecord_def Let_def cloneBoard_id)

lemma applyLegalS_spec:
  assumes r: "refsIn h bd" and b: "board s = deref h bd"
    and rows: "0 \<le> row f" "0 \<le> row t"
    and ep: "isEnPassant (enPassantTarget s) pc t \<Longrightarrow> 0 \<le> capturedPawnRow pc t"
  shows "map_option (\<lambda>x. snd (snd x)) (applyLegalS n h bd s pc f t p) = applyLegal n s pc f t p"
    and "applyLegalS n h bd s pc f t p = Some (h', nb', s')
         \<Longrightarrow> unchangedIn h h' \<and> refsIn h' nb' \<and> board s' = deref h' nb'"
proof -
  obtain h0 nb where c: "cloneBoardS h bd = (h0, nb)" by (cases "cloneBoardS h bd")
  note cs = cloneBoardS_spec[OF c]
  define hw where "hw = movedBoardS h0 nb s pc f t p"
  have d0: "deref h0 nb = board s" using cs(2) b by simp
  have uw: "unchangedIn h hw" unfolding hw_def by (rule movedBoardS_frame[OF cs(1) cs(5)])
  have rw: "refsIn hw nb" using cs(4) by (simp add: hw_def movedBoardS_refsIn)
  have dw: "deref hw nb = movedBoard s pc f t p"
    unfolding hw_def by (rule movedBoardS_spec[OF cs(3) cs(4) d0 rows ep])
  have bw: "deref hw bd = board s" using unchangedIn_deref[OF uw r] b by simp
  have mv: "moveRecordS h0 hw bd nb s pc f t p = moveRecord s pc f t p"
    by (rule moveRecordS_spec[OF cs(3) cs(4) d0 bw rows(1)])
  let ?nt = "opposite (turn s)"
  let ?ne = "newEnPassantTarget pc f t"
  note sr = scanS_refines[OF rw, of n ?nt ?ne allSquares, unfolded dw]
  have hl: "map_option snd (scanS n hw nb ?nt ?ne allSquares) = hasLegalMoves n (movedBoard s pc f t p) ?nt ?ne"
    using sr by (simp add: hasLegalMoves_def)
  have after: "unchangedIn h h1 \<and> refsIn h1 nb \<and> deref h1 nb = movedBoard s pc f t p"
    if "scanS n hw nb ?nt ?ne allSquares = Some (h1, x)" for h1 x
  proof -
    note u = scanS_frame[OF that]
    from unchangedIn_trans[OF uw u] unchangedIn_refsIn[OF u rw] unchangedIn_deref[OF u rw] dw
    show ?thesis by simp
  qed
  have e: "applyLegalS n h bd s pc f t p =
      do {
        (h1, hasLegal) \<leftarrow> scanS n hw nb ?nt ?ne allSquares;
        (status1, winner1) \<leftarrow>
          (if \<not> hasLegal then do {
             chk \<leftarrow> isInCheck n (deref h1 nb) ?nt;
             Some (if chk then (Checkmate, Some (turn s)) else (Stalemate, None))
           } else Some (if status s = Waiting then Playing else status s, None));
        Some (h1, nb,
              s\<lparr>board := deref h1 nb, turn := ?nt, status := status1,
                    moves := moves s @ [moveRecord s pc f t p], lastMove := Some (moveRecord s pc f t p),
                    enPassantTarget := ?ne, winner := winner1\<rparr>)
      }"
    by (simp add: applyLegalS_def c Let_def hw_def[symmetric] mv)
  show "map_option (\<lambda>x. snd (snd x)) (applyLegalS n h bd s pc f t p) = applyLegal n s pc f t p"
  proof (cases "scanS n hw nb ?nt ?ne allSquares")
    case None
    with hl have "hasLegalMoves n (movedBoard s pc f t p) ?nt ?ne = None" by simp
    with None show ?thesis
      by (simp add: e applyLegal_def terminalCheck_def Let_def)
  next
    case (Some a)
    obtain h1 x where a: "a = (h1, x)" by (cases a)
    from hl Some a have hx: "hasLegalMoves n (movedBoard s pc f t p) ?nt ?ne = Some x" by simp
    from after[OF Some[unfolded a]] have d1: "deref h1 nb = movedBoard s pc f t p" by simp
    show ?thesis
    proof (cases x)
      case True
      with Some a hx d1 show ?thesis
        by (simp add: e applyLegal_def terminalCheck_def Let_def)
    next
      case False
      show ?thesis
      proof (cases "isInCheck n (movedBoard s pc f t p) ?nt")
        case None
        with Some a hx d1 False show ?thesis
          by (simp add: e applyLegal_def terminalCheck_def Let_def)
      next
        case (Some chk)
        with \<open>scanS n hw nb ?nt ?ne allSquares = Some a\<close> a hx d1 False show ?thesis
          by (simp add: e applyLegal_def terminalCheck_def Let_def)
      qed
    qed
  qed
  show "unchangedIn h h' \<and> refsIn h' nb' \<and> board s' = deref h' nb'"
    if "applyLegalS n h bd s pc f t p = Some (h', nb', s')"
  proof -
    from that[unfolded e] obtain x where sc: "scanS n hw nb ?nt ?ne allSquares = Some (h', x)"
      and n: "nb' = nb" and bs: "board s' = deref h' nb"
      by (auto split: bind_splits prod.splits if_splits)
    from after[OF sc] n bs show ?thesis by simp
  qed
qed

lemma capturedPawnRow_on_board:
  assumes "getPiece b f = Some pc" "isEnPassant ept pc t" "getRawMoves n b f ept = Some raw" "t \<in> set raw"
  shows "0 \<le> capturedPawnRow pc t"
proof -
  from assms(2) have pw: "ptype pc = Pawn" by (simp add: isEnPassant_def)
  from rawMoves_valid[OF assms(3,4)] have "0 \<le> row t" by (simp add: isValidPosition_def)
  moreover have "1 \<le> row t" if "color pc = Black"
    by (rule black_pawn_row[OF assms(1) pw that assms(3,4)])
  ultimately show ?thesis by (cases "color pc") (auto simp: capturedPawnRow_def)
qed

text \<open>
  The two embeddings of \<^verbatim>\<open>makeMove\<close> agree: on a store that holds the board of the
  state, the call in the store returns, returns \<^verbatim>\<open>null\<close> or does not return as the call
  on values does, and a state that it returns is the state that the call on values
  returns. Whatever the call returns, every row that was in the store before it is
  unchanged, and the board of a returned state is made of rows allocated by the call.
\<close>

lemma makeMoveS_refines:
  assumes r: "refsIn h bd" and b: "board s = deref h bd"
  shows "map_option (\<lambda>x. map_option snd (snd x)) (makeMoveS n h bd s f t p) = makeMove n s f t p"
proof (cases "getPiece (deref h bd) f")
  case None
  then show ?thesis using b by (simp add: makeMoveS_def makeMove_def)
next
  case (Some pc)
  show ?thesis
  proof (cases "color pc \<noteq> turn s")
    case True
    with Some show ?thesis using b by (simp add: makeMoveS_def makeMove_def)
  next
    case False
    note g = getLegalMovesS_refines[OF r, of n f "enPassantTarget s"]
    show ?thesis
    proof (cases "getLegalMovesS n h bd f (enPassantTarget s)")
      case None
      with g have "getLegalMoves n (board s) f (enPassantTarget s) = None" using b by simp
      with None Some False show ?thesis using b by (simp add: makeMoveS_def makeMove_def)
    next
      case (Some a)
      obtain h1 ms where a: "a = (h1, ms)" by (cases a)
      from g Some a b have l: "getLegalMoves n (board s) f (enPassantTarget s) = Some ms" by simp
      note pcs = \<open>getPiece (deref h bd) f = Some pc\<close>
      show ?thesis
      proof (cases "t \<in> set ms")
        case False
        with Some a l pcs \<open>\<not> color pc \<noteq> turn s\<close> show ?thesis
          using b by (simp add: makeMoveS_def makeMove_def list_ex_samePos)
      next
        case True
        note u = getLegalMovesS_frame[OF Some[unfolded a]]
        have r1: "refsIn h1 bd" by (rule unchangedIn_refsIn[OF u r])
        have b1: "board s = deref h1 bd" using unchangedIn_deref[OF u r] b by simp
        from getLegalMoves_raw[OF l] obtain raw where
          raw: "getRawMoves n (board s) f (enPassantTarget s) = Some raw" "set ms \<subseteq> set raw" by blast
        with True have tr: "t \<in> set raw" by blast
        have pcb: "getPiece (board s) f = Some pc" using pcs b by simp
        have rows: "0 \<le> row f" "0 \<le> row t"
          using getPiece_Some_valid[OF pcb] rawMoves_valid[OF raw(1) tr]
          by (simp_all add: isValidPosition_def)
        have ep: "isEnPassant (enPassantTarget s) pc t \<Longrightarrow> 0 \<le> capturedPawnRow pc t"
          by (rule capturedPawnRow_on_board[OF pcb _ raw(1) tr])
        note ap = applyLegalS_spec(1)[OF r1 b1 rows ep, of n p]
        have "makeMoveS n h bd s f t p =
                do { (h2, newBoard, state') \<leftarrow> applyLegalS n h1 bd s pc f t p;
                     Some (h2, Some (newBoard, state')) }"
          using Some a pcs \<open>\<not> color pc \<noteq> turn s\<close> True
          by (simp add: makeMoveS_def list_ex_samePos)
        moreover have "makeMove n s f t p = map_option Some (applyLegal n s pc f t p)"
          using l pcb \<open>\<not> color pc \<noteq> turn s\<close> True
          by (simp add: makeMove_def list_ex_samePos)
        ultimately show ?thesis
          using ap by (cases "applyLegalS n h1 bd s pc f t p") (auto simp: map_option_case split: option.splits)
      qed
    qed
  qed
qed

lemma makeMoveS_frame:
  assumes r: "refsIn h bd" and b: "board s = deref h bd"
    and m: "makeMoveS n h bd s f t p = Some (h', res)"
  shows "unchangedIn h h' \<and> deref h' bd = board s
       \<and> (case res of None \<Rightarrow> True
          | Some (nb, s') \<Rightarrow> refsIn h' nb \<and> board s' = deref h' nb \<and> (\<forall>a \<in> set nb. length h \<le> a))"
proof -
  have u: "unchangedIn h h'" and c: "case res of None \<Rightarrow> True
          | Some (nb, s') \<Rightarrow> refsIn h' nb \<and> board s' = deref h' nb \<and> (\<forall>a \<in> set nb. length h \<le> a)"
  proof -
    show "unchangedIn h h'"
    proof (cases "getPiece (deref h bd) f")
      case None
      with m show ?thesis by (simp add: makeMoveS_def unchangedIn_refl)
    next
      case (Some pc)
      show ?thesis
      proof (cases "color pc \<noteq> turn s")
        case True
        with Some m show ?thesis by (simp add: makeMoveS_def unchangedIn_refl)
      next
        case False
        with Some m obtain h1 ms where g: "getLegalMovesS n h bd f (enPassantTarget s) = Some (h1, ms)"
          and k: "(if \<not> list_ex (\<lambda>m. samePos m t) ms then Some (h1, None)
                   else do { (h2, newBoard, state') \<leftarrow> applyLegalS n h1 bd s pc f t p;
                             Some (h2, Some (newBoard, state')) }) = Some (h', res)"
          by (auto simp: makeMoveS_def split: bind_splits)
        note u1 = getLegalMovesS_frame[OF g]
        show ?thesis
        proof (cases "list_ex (\<lambda>m. samePos m t) ms")
          case False
          with k u1 show ?thesis by simp
        next
          case True
          with k obtain nb s' where ap: "applyLegalS n h1 bd s pc f t p = Some (h', nb, s')"
            by (auto split: bind_splits)
          have "unchangedIn h1 h'"
          proof -
            obtain h0 nb0 where cl: "cloneBoardS h1 bd = (h0, nb0)" by (cases "cloneBoardS h1 bd")
            note cs = cloneBoardS_spec[OF cl]
            from ap cl obtain x where sc: "scanS n (movedBoardS h0 nb0 s pc f t p) nb0 (opposite (turn s))
                  (newEnPassantTarget pc f t) allSquares = Some (h', x)"
              by (auto simp: applyLegalS_def Let_def split: bind_splits prod.splits if_splits)
            from scanS_frame[OF sc] movedBoardS_frame[OF cs(1) cs(5)]
            show ?thesis by (blast intro: unchangedIn_trans)
          qed
          with u1 show ?thesis by (blast intro: unchangedIn_trans)
        qed
      qed
    qed
    show "case res of None \<Rightarrow> True
          | Some (nb, s') \<Rightarrow> refsIn h' nb \<and> board s' = deref h' nb \<and> (\<forall>a \<in> set nb. length h \<le> a)"
    proof (cases res)
      case None
      then show ?thesis by simp
    next
      case (Some a)
      obtain nb s' where a: "a = (nb, s')" by (cases a)
      from m Some a obtain pc h1 ms where g: "getLegalMovesS n h bd f (enPassantTarget s) = Some (h1, ms)"
        and ap: "applyLegalS n h1 bd s pc f t p = Some (h', nb, s')"
        by (auto simp: makeMoveS_def split: option.splits if_splits bind_splits)
      note u1 = getLegalMovesS_frame[OF g]
      obtain h0 nb0 where cl: "cloneBoardS h1 bd = (h0, nb0)" by (cases "cloneBoardS h1 bd")
      note cs = cloneBoardS_spec[OF cl]
      from ap cl obtain x where sc: "scanS n (movedBoardS h0 nb0 s pc f t p) nb0 (opposite (turn s))
            (newEnPassantTarget pc f t) allSquares = Some (h', x)"
        and n: "nb = nb0" and bs: "board s' = deref h' nb0"
        by (auto simp: applyLegalS_def Let_def split: bind_splits prod.splits if_splits)
      have rw: "refsIn (movedBoardS h0 nb0 s pc f t p) nb0" using cs(4) by (simp add: movedBoardS_refsIn)
      have "refsIn h' nb0" by (rule unchangedIn_refsIn[OF scanS_frame[OF sc] rw])
      moreover have "\<forall>a \<in> set nb0. length h \<le> a"
        using cs(5) u1 by (auto simp: unchangedIn_def)
      ultimately show ?thesis using Some a n bs by simp
    qed
  qed
  from u c unchangedIn_deref[OF u r] b show ?thesis by simp
qed

section \<open>Castling where both sides may castle\<close>

lemma castling_facts:
  "getPiece bothCastleBoard (pos 7 4) = Some \<lparr>ptype = King, color = White, hasMoved = False\<rparr>"
  "castlingConditions bothCastleBoard 7 \<lparr>ptype = King, color = White, hasMoved = False\<rparr> Kingside"
  "bothMayCastleShort bothCastleBoard"
  "testBoard openingBoard (pos 0 5) \<lparr>ptype = Bishop, color = Black, hasMoved = False\<rparr> None (pos 1 4)
     = afterBe7Board"
  "getPiece afterBe7Board (pos 7 4) = Some \<lparr>ptype = King, color = White, hasMoved = False\<rparr>"
  "castlingConditions afterBe7Board 7 \<lparr>ptype = King, color = White, hasMoved = False\<rparr> Kingside"
  "bothMayCastleShort afterBe7Board"
  by code_simp+

lemma makeMove_stuck:
  assumes "getPiece (board s) f = Some pc" "color pc = turn s"
    and "getLegalMoves n (board s) f (enPassantTarget s) = None"
  shows "makeMove n s f t p = None"
  using assms by (simp add: makeMove_def)

text \<open>
  Claim C6 against the code. On a board where both sides may castle short, the four
  conditions of the claim hold for the white king: it has not moved, the rook on h1 has
  not moved, f1 and g1 are empty, and no black piece has e1, f1 or g1 among its moves.
  By the claim the destination g1 is offered. The code does not offer it:
  \<^verbatim>\<open>getRawMoves\<close> for the king does not return under any depth budget, because its
  castling branch calls \<^verbatim>\<open>isSquareAttacked\<close>, which asks for the moves of the black
  king, whose castling branch calls \<^verbatim>\<open>isSquareAttacked\<close> in turn, and so on without
  end. \<^verbatim>\<open>getLegalMoves\<close> for the king and \<^verbatim>\<open>makeMove\<close> for the castling move do not
  return either. This is so on \<open>bothCastleBoard\<close>, and on the board after 1. e4 e5 2. Nf3
  Nf6 3. Bc4 Be7, which \<^verbatim>\<open>getLegalMoves\<close> builds as the first scratch board for black's
  bishop on f8 in the position that a game reaches after five accepted moves.
\<close>

theorem castling_not_offered_when_both_may_castle:
  "getPiece bothCastleBoard (pos 7 4) = Some \<lparr>ptype = King, color = White, hasMoved = False\<rparr>
   \<and> castlingConditions bothCastleBoard 7 \<lparr>ptype = King, color = White, hasMoved = False\<rparr> Kingside
   \<and> getRawMoves n bothCastleBoard (pos 7 4) ept = None
   \<and> getLegalMoves n bothCastleBoard (pos 7 4) ept = None
   \<and> makeMove n (gameOn bothCastleBoard White Playing) (pos 7 4) (pos 7 6) p = None
   \<and> map_option (map_option (\<lambda>s. (board s, turn s, status s, enPassantTarget s)))
        (playMoves 2 (createInitialGameState ''10+0'') openingMoves)
       = Some (Some (openingBoard, Black, Playing, None))
   \<and> testBoard openingBoard (pos 0 5) \<lparr>ptype = Bishop, color = Black, hasMoved = False\<rparr> None (pos 1 4)
       = afterBe7Board
   \<and> getPiece afterBe7Board (pos 7 4) = Some \<lparr>ptype = King, color = White, hasMoved = False\<rparr>
   \<and> castlingConditions afterBe7Board 7 \<lparr>ptype = King, color = White, hasMoved = False\<rparr> Kingside
   \<and> getRawMoves n afterBe7Board (pos 7 4) ept = None
   \<and> getLegalMoves n afterBe7Board (pos 7 4) ept = None"
proof -
  note a = never_returns_when_both_may_castle[OF castling_facts(3), of n ept]
  note b = never_returns_when_both_may_castle[OF castling_facts(7), of n ept]
  have m: "makeMove n (gameOn bothCastleBoard White Playing) (pos 7 4) (pos 7 6) p = None"
  proof (rule makeMove_stuck)
    show "getPiece (board (gameOn bothCastleBoard White Playing)) (pos 7 4)
            = Some \<lparr>ptype = King, color = White, hasMoved = False\<rparr>"
      using castling_facts(1) by (simp add: gameOn_def)
    show "color \<lparr>ptype = King, color = White, hasMoved = False\<rparr> = turn (gameOn bothCastleBoard White Playing)"
      by (simp add: gameOn_def)
    show "getLegalMoves n (board (gameOn bothCastleBoard White Playing)) (pos 7 4)
            (enPassantTarget (gameOn bothCastleBoard White Playing)) = None"
      using never_returns_when_both_may_castle[OF castling_facts(3), of n None] by (simp add: gameOn_def)
  qed
  from a b m opening_reached castling_facts(1,2,4,5,6) show ?thesis by blast
qed

section \<open>Rejected moves and the input state\<close>

lemma opening_state:
  "getPiece (board (gameOn openingBoard Black Playing)) (pos 0 5)
     = Some \<lparr>ptype = Bishop, color = Black, hasMoved = False\<rparr>"
  "color \<lparr>ptype = Bishop, color = Black, hasMoved = False\<rparr> = turn (gameOn openingBoard Black Playing)"
  "enPassantTarget (gameOn openingBoard Black Playing) = None"
  "board (gameOn openingBoard Black Playing) = openingBoard"
  "turn (gameOn openingBoard Black Playing) = Black"
  using opening_facts(1) by (simp_all add: gameOn_def)

text \<open>
  Claim C4 against the code. Where the checks of \<^verbatim>\<open>makeMove\<close> return, the claim holds:
  a move from a square without a piece, a move of a piece that is not of the colour to
  move, and a move to a square that is not in the list that \<^verbatim>\<open>getLegalMoves\<close> returns
  give \<^verbatim>\<open>null\<close>, and the call changes no row that was in the store before it: the
  input board, read through its own rows after the call, is what it was, and so is
  every other board; the writes of \<^verbatim>\<open>getLegalMoves\<close> go to scratch boards that it
  allocates. No call that returns writes to a row of its input, whether it rejects or
  accepts the move. The other fields of the state are values that are handed to the call
  and that it does not assign. The claim fails where \<^verbatim>\<open>getLegalMoves\<close> does not return: in
  the position after 1. e4 e5 2. Nf3 Nf6 3. Bc4 the bishop on f8 has the raw moves e7,
  d6, c5, b4 and a3, the corner h1 is not a move of it, and \<^verbatim>\<open>makeMove\<close> from f8 to h1
  gives no \<^verbatim>\<open>null\<close>: it does not return under any depth budget.
\<close>

theorem rejected_move_null_and_input_unchanged:
  "(refsIn h bd \<and> board s = deref h bd
      \<and> (getPiece (board s) f = None
          \<or> (\<exists>pc. getPiece (board s) f = Some pc \<and> color pc \<noteq> turn s)
          \<or> (\<exists>ms. getLegalMoves n (board s) f (enPassantTarget s) = Some ms \<and> t \<notin> set ms))
      \<longrightarrow> (\<exists>h'. makeMoveS n h bd s f t p = Some (h', None) \<and> unchangedIn h h' \<and> deref h' bd = board s)
          \<and> makeMove n s f t p = Some None)
   \<and> (refsIn h bd \<and> board s = deref h bd \<and> makeMoveS n h bd s f t p = Some (h', res)
      \<longrightarrow> unchangedIn h h' \<and> deref h' bd = board s)
   \<and> map_option (map_option (\<lambda>s. (board s, turn s, status s, enPassantTarget s)))
        (playMoves 2 (createInitialGameState ''10+0'') openingMoves)
       = Some (Some (openingBoard, Black, Playing, None))
   \<and> getRawMoves n openingBoard (pos 0 5) None = Some [pos 1 4, pos 2 3, pos 3 2, pos 4 1, pos 5 0]
   \<and> makeMove n (gameOn openingBoard Black Playing) (pos 0 5) (pos 7 7) p = None
   \<and> makeMoveS n (storeOf (gameOn openingBoard Black Playing)) (boardOf (gameOn openingBoard Black Playing))
        (gameOn openingBoard Black Playing) (pos 0 5) (pos 7 7) p = None"
proof -
  let ?S = "gameOn openingBoard Black Playing"
  have 1: "(\<exists>h'. makeMoveS n h bd s f t p = Some (h', None) \<and> unchangedIn h h' \<and> deref h' bd = board s)
          \<and> makeMove n s f t p = Some None"
    if "refsIn h bd" "board s = deref h bd"
      "getPiece (board s) f = None
          \<or> (\<exists>pc. getPiece (board s) f = Some pc \<and> color pc \<noteq> turn s)
          \<or> (\<exists>ms. getLegalMoves n (board s) f (enPassantTarget s) = Some ms \<and> t \<notin> set ms)"
    using makeMoveS_null[OF that] makeMove_null[OF that(3)] by blast
  have 2: "getRawMoves n openingBoard (pos 0 5) None = Some [pos 1 4, pos 2 3, pos 3 2, pos 4 1, pos 5 0]"
    using getRawMoves_not_king[OF opening_facts(1), of n None] opening_facts(2) by simp
  have 3: "makeMove n ?S (pos 0 5) (pos 7 7) p = None"
    by (rule bishop_move_not_applied) (simp_all add: gameOn_def)
  have 4: "makeMoveS n (storeOf ?S) (boardOf ?S) ?S (pos 0 5) (pos 7 7) p = None"
  proof (rule makeMoveS_stuck[OF storeOf_refs(1)])
    show "getPiece (deref (storeOf ?S) (boardOf ?S)) (pos 0 5)
            = Some \<lparr>ptype = Bishop, color = Black, hasMoved = False\<rparr>"
      using opening_state(1) by (simp add: storeOf_refs(2))
    show "color \<lparr>ptype = Bishop, color = Black, hasMoved = False\<rparr> = turn ?S"
      by (rule opening_state(2))
    show "getLegalMoves n (deref (storeOf ?S) (boardOf ?S)) (pos 0 5) (enPassantTarget ?S) = None"
      using bishop_moves_never_return[of n] by (simp add: storeOf_refs(2) opening_state(3,4))
  qed
  have 5: "unchangedIn h h' \<and> deref h' bd = board s"
    if "refsIn h bd" "board s = deref h bd" "makeMoveS n h bd s f t p = Some (h', res)"
    using makeMoveS_frame[OF that] by simp
  from 1 2 3 4 5 opening_reached show ?thesis by blast
qed

theorem rejected_move_null_and_input_unchanged_witness:
  "map_option snd (makeMoveS 0 (storeOf (kingsOnlyState Playing None)) (boardOf (kingsOnlyState Playing None))
       (kingsOnlyState Playing None) (pos 3 3) (pos 4 4) None) = Some None
   \<and> map_option snd (makeMoveS 0 (storeOf (kingsOnlyState Playing None)) (boardOf (kingsOnlyState Playing None))
       (kingsOnlyState Playing None) (pos 0 4) (pos 1 4) None) = Some None
   \<and> map_option snd (makeMoveS 1 (storeOf (kingsOnlyState Playing None)) (boardOf (kingsOnlyState Playing None))
       (kingsOnlyState Playing None) (pos 7 4) (pos 5 4) None) = Some None
   \<and> map_option (\<lambda>r. take 8 (fst r))
        (makeMoveS 1 (storeOf (kingsOnlyState Playing None)) (boardOf (kingsOnlyState Playing None))
           (kingsOnlyState Playing None) (pos 7 4) (pos 5 4) None) = Some kingsOnly
   \<and> map_option (\<lambda>r. length (fst r))
        (makeMoveS 1 (storeOf (kingsOnlyState Playing None)) (boardOf (kingsOnlyState Playing None))
           (kingsOnlyState Playing None) (pos 7 4) (pos 5 4) None) = Some 48
   \<and> makeMove 1 (kingsOnlyState Playing None) (pos 7 4) (pos 5 4) None = Some None
   \<and> map_option (\<lambda>r. map_option snd (snd r))
        (makeMoveS 1 (storeOf (kingsOnlyState Playing None)) (boardOf (kingsOnlyState Playing None))
           (kingsOnlyState Playing None) (pos 7 4) (pos 7 3) None)
       = Some (Some (kingsOnlyAfterKd1 Playing None))
   \<and> map_option (\<lambda>r. take 8 (fst r))
        (makeMoveS 1 (storeOf (kingsOnlyState Playing None)) (boardOf (kingsOnlyState Playing None))
           (kingsOnlyState Playing None) (pos 7 4) (pos 7 3) None) = Some kingsOnly"
proof -
  let ?S = "kingsOnlyState Playing None"
  have r: "refsIn (storeOf ?S) (boardOf ?S)" "board ?S = deref (storeOf ?S) (boardOf ?S)"
    by (simp_all add: storeOf_refs)
  have l: "length kingsOnly = 8" "storeOf ?S = kingsOnly" by code_simp+
  have 1: "getPiece (board ?S) (pos 3 3) = None"
    by code_simp
  have 2: "\<exists>pc. getPiece (board ?S) (pos 0 4) = Some pc \<and> color pc \<noteq> turn ?S"
  proof -
    have "getPiece (board ?S) (pos 0 4) = Some \<lparr>ptype = King, color = Black, hasMoved = True\<rparr>
          \<and> color \<lparr>ptype = King, color = Black, hasMoved = True\<rparr> \<noteq> turn ?S"
      by code_simp
    then show ?thesis by blast
  qed
  have 3: "\<exists>ms. getLegalMoves 1 (board ?S) (pos 7 4) (enPassantTarget ?S) = Some ms \<and> pos 5 4 \<notin> set ms"
  proof -
    have "getLegalMoves 1 (board ?S) (pos 7 4) (enPassantTarget ?S)
            = Some [pos 6 3, pos 6 4, pos 6 5, pos 7 3, pos 7 5]
          \<and> pos 5 4 \<notin> set [pos 6 3, pos 6 4, pos 6 5, pos 7 3, pos 7 5]"
      by code_simp
    then show ?thesis by blast
  qed
  have n: "map_option (\<lambda>r. length (fst r))
        (makeMoveS 1 (storeOf ?S) (boardOf ?S) ?S (pos 7 4) (pos 5 4) None) = Some 48"
    by code_simp
  note th = rejected_move_null_and_input_unchanged[where h = "storeOf ?S" and bd = "boardOf ?S" and s = ?S
      and p = None, THEN conjunct1, rule_format]
  from th[where f = "pos 3 3" and t = "pos 4 4" and n = 0] r 1
  have a: "map_option snd (makeMoveS 0 (storeOf ?S) (boardOf ?S) ?S (pos 3 3) (pos 4 4) None) = Some None"
    by auto
  from th[where f = "pos 0 4" and t = "pos 1 4" and n = 0] r 2
  have b: "map_option snd (makeMoveS 0 (storeOf ?S) (boardOf ?S) ?S (pos 0 4) (pos 1 4) None) = Some None"
    by auto
  from th[where f = "pos 7 4" and t = "pos 5 4" and n = 1] r 3
  obtain h' where c: "makeMoveS 1 (storeOf ?S) (boardOf ?S) ?S (pos 7 4) (pos 5 4) None = Some (h', None)"
    "unchangedIn (storeOf ?S) h'" "makeMove 1 ?S (pos 7 4) (pos 5 4) None = Some None"
    by auto
  from c(2) have d: "take 8 h' = kingsOnly" by (simp add: unchangedIn_def l)
  have acc: "map_option (\<lambda>r. map_option snd (snd r))
        (makeMoveS 1 (storeOf ?S) (boardOf ?S) ?S (pos 7 4) (pos 7 3) None)
       = Some (Some (kingsOnlyAfterKd1 Playing None))"
    by code_simp
  then obtain h2 res where e: "makeMoveS 1 (storeOf ?S) (boardOf ?S) ?S (pos 7 4) (pos 7 3) None = Some (h2, res)"
    by (cases "makeMoveS 1 (storeOf ?S) (boardOf ?S) ?S (pos 7 4) (pos 7 3) None") auto
  from rejected_move_null_and_input_unchanged[where h = "storeOf ?S" and bd = "boardOf ?S" and s = ?S
      and p = None and f = "pos 7 4" and t = "pos 7 3" and n = 1 and h' = h2 and res = res,
      THEN conjunct2, THEN conjunct1, rule_format] r e
  have "unchangedIn (storeOf ?S) h2" by blast
  then have g: "take 8 h2 = kingsOnly" by (simp add: unchangedIn_def l)
  from a b c n d acc e g show ?thesis by simp
qed

end
